theory Spec2Isabelle
  imports Complex_Main "HOL-Library.AList" "HOL-Library.Multiset"
begin

section \<open>Python values\<close>

text \<open>
  A Python \<open>str\<close> holding natural-language text is a list of Unicode code points
  (\<open>len\<close> counts code points, and the estimator's regular expression tests code
  points). Protocol strings (ids, names, JSON argument text, finish reasons) are
  \<^typ>\<open>string\<close>.

  A key of a JSON object that the code reads can be absent, present with \<open>null\<close>, or
  present with a value. \<open>d.get(k)\<close> cannot tell the first two apart, \<open>k in d\<close> can.
\<close>

type_synonym pystr = "nat list"

datatype 'a field = Absent | Null | Val 'a

datatype py_exn =
    TypeError string
  | AttributeError string
  | HTTPException int string
  | Other_Exception string

text \<open>\<open>str(e)\<close> of an exception, as the handlers print it.\<close>

fun exn_str :: "py_exn \<Rightarrow> string" where
  "exn_str (TypeError m) = m"
| "exn_str (AttributeError m) = m"
| "exn_str (HTTPException code detail) = detail"
| "exn_str (Other_Exception m) = m"

text \<open>Truthiness of an optional string: \<open>None\<close> and \<open>""\<close> are falsy.\<close>

fun truthy :: "'a list option \<Rightarrow> bool" where
  "truthy None = False"
| "truthy (Some s) = (s \<noteq> [])"

section \<open>IEEE double arithmetic of the token estimator\<close>

text \<open>
  \<open>src/core/token_estimator.py\<close> divides with Python's \<open>/\<close>, which yields a double.
  A non-negative finite double is \<open>Double m e\<close> with value \<open>m * 2 ^ e\<close>. The quotient of
  two positive integers is rounded to the nearest double with a 53-bit significand,
  ties to even, as \<open>int.__truediv__\<close> and the conversion of a decimal literal do; the
  quotient of two doubles is the same rounding of the exact quotient. The exponent
  range of doubles is not modelled: the values computed here lie far inside it.
\<close>

fun bit_length :: "nat \<Rightarrow> nat" where
  "bit_length n = (if n = 0 then 0 else Suc (bit_length (n div 2)))"

declare bit_length.simps [simp del]

definition round_half_even_div :: "nat \<Rightarrow> nat \<Rightarrow> nat" where
  "round_half_even_div p q =
     (let d = p div q; r = p mod q
      in if 2 * r < q then d
         else if q < 2 * r then d + 1
         else if even d then d else d + 1)"

datatype double = Double nat int

fun real_value :: "double \<Rightarrow> rat" where
  "real_value (Double m e) = of_nat m * 2 powi e"

definition float_quot :: "nat \<Rightarrow> nat \<Rightarrow> double" where
  "float_quot p q =
     (if p = 0 then Double 0 0
      else
        let d = int (bit_length p) - int (bit_length q);
            e = (if (2::rat) powi d * of_nat q \<le> of_nat p then d else d - 1);
            s = 52 - e;
            m = (if 0 \<le> s then round_half_even_div (p * 2 ^ nat s) q
                 else round_half_even_div p (q * 2 ^ nat (- s)))
        in Double m (- s))"

fun float_truediv :: "double \<Rightarrow> double \<Rightarrow> double" where
  "float_truediv (Double m1 e1) (Double m2 e2) =
     (case float_quot m1 m2 of Double m e \<Rightarrow> Double m (e + e1 - e2))"

text \<open>\<open>float(n)\<close> for a non-negative integer, and \<open>int(x)\<close> for a non-negative double.\<close>

definition float_of_nat :: "nat \<Rightarrow> double" where
  "float_of_nat n = float_quot n 1"

definition int_of_float :: "double \<Rightarrow> int" where
  "int_of_float x = \<lfloor>real_value x\<rfloor>"

section \<open>TokenEstimator\<close>

text \<open>
  The three ratios set in \<open>TokenEstimator.__init__\<close>, and the two thresholds of
  \<open>estimate_text_tokens\<close>: each is the double nearest to its decimal literal.
\<close>

definition ENGLISH_CHAR_PER_TOKEN :: double where
  "ENGLISH_CHAR_PER_TOKEN = float_quot 40 10"

definition CHINESE_CHAR_PER_TOKEN :: double where
  "CHINESE_CHAR_PER_TOKEN = float_quot 12 10"

definition MIXED_CHAR_PER_TOKEN :: double where
  "MIXED_CHAR_PER_TOKEN = float_quot 25 10"

definition literal_0_7 :: double where
  "literal_0_7 = float_quot 7 10"

definition literal_0_1 :: double where
  "literal_0_1 = float_quot 1 10"

text \<open>The character class of the regular expression: U+4E00 to U+9FFF.\<close>

definition is_cjk :: "nat \<Rightarrow> bool" where
  "is_cjk c = (19968 \<le> c \<and> c \<le> 40959)"

text \<open>\<open>str.isspace\<close> on one code point, which \<open>str.strip()\<close> uses.\<close>

definition py_isspace :: "nat \<Rightarrow> bool" where
  "py_isspace c =
     ((9 \<le> c \<and> c \<le> 13) \<or> (28 \<le> c \<and> c \<le> 32) \<or> c = 133 \<or> c = 160 \<or> c = 5760
      \<or> (8192 \<le> c \<and> c \<le> 8202) \<or> c = 8232 \<or> c = 8233 \<or> c = 8239 \<or> c = 8287
      \<or> c = 12288)"

definition strip :: "pystr \<Rightarrow> pystr" where
  "strip s = rev (dropWhile py_isspace (rev (dropWhile py_isspace s)))"

text \<open>
  The argument of \<open>estimate_text_tokens\<close>: a string, a list whose items are dicts with
  a \<open>text\<close> key, objects with a \<open>text\<close> attribute, strings or anything else, an
  object with a \<open>text\<close> attribute, or another (truthy) object given by its \<open>str\<close>.
\<close>

datatype text_item =
    Dict_With_Text pystr
  | Obj_With_Text pystr
  | Str_Item pystr
  | Other_Item

datatype text_arg =
    None_Arg
  | Str_Arg pystr
  | List_Arg "text_item list"
  | Obj_Arg pystr
  | Other_Arg pystr

fun item_text :: "text_item \<Rightarrow> pystr" where
  "item_text (Dict_With_Text t) = t @ [32]"
| "item_text (Obj_With_Text t) = t @ [32]"
| "item_text (Str_Item t) = t @ [32]"
| "item_text Other_Item = []"

fun text_content_of :: "text_arg \<Rightarrow> pystr" where
  "text_content_of None_Arg = []"
| "text_content_of (Str_Arg s) = s"
| "text_content_of (List_Arg items) = strip (concat (map item_text items))"
| "text_content_of (Obj_Arg t) = t"
| "text_content_of (Other_Arg s) = s"

text \<open>
  Lines 58 to 75, once \<open>text_content\<close> is a string: the two counts, and the
  arithmetic on them.
\<close>

definition estimate_counts :: "nat \<Rightarrow> nat \<Rightarrow> int" where
  "estimate_counts chinese_chars total_chars =
     (if total_chars = 0 then 0
      else
        let chinese_ratio = float_quot chinese_chars total_chars;
            estimated_tokens =
              (if real_value literal_0_7 < real_value chinese_ratio
               then float_truediv (float_of_nat total_chars) CHINESE_CHAR_PER_TOKEN
               else if real_value chinese_ratio < real_value literal_0_1
               then float_truediv (float_of_nat total_chars) ENGLISH_CHAR_PER_TOKEN
               else float_truediv (float_of_nat total_chars) MIXED_CHAR_PER_TOKEN)
        in max 1 (int_of_float estimated_tokens))"

definition estimate_content :: "pystr \<Rightarrow> int" where
  "estimate_content text_content =
     estimate_counts (length (filter is_cjk text_content)) (length text_content)"

fun falsy_arg :: "text_arg \<Rightarrow> bool" where
  "falsy_arg None_Arg = True"
| "falsy_arg (Str_Arg s) = (s = [])"
| "falsy_arg (List_Arg items) = (items = [])"
| "falsy_arg (Obj_Arg t) = False"
| "falsy_arg (Other_Arg s) = False"

definition estimate_text_tokens :: "text_arg \<Rightarrow> int" where
  "estimate_text_tokens text =
     (if falsy_arg text then 0
      else let text_content = text_content_of text
           in if text_content = [] then 0 else estimate_content text_content)"

text \<open>
  A message after \<open>msg.dict()\<close>: whether it has a \<open>role\<close> key, and its \<open>content\<close>.
\<close>

datatype message_content =
    No_Content
  | Str_Content pystr
  | List_Content "text_item list"
  | Other_Content

record message =
  has_role :: bool
  content :: message_content

fun content_item_tokens :: "text_item \<Rightarrow> int" where
  "content_item_tokens (Dict_With_Text t) = estimate_text_tokens (Str_Arg t)"
| "content_item_tokens (Str_Item t) = estimate_text_tokens (Str_Arg t)"
| "content_item_tokens (Obj_With_Text t) = 0"
| "content_item_tokens Other_Item = 0"

fun message_tokens :: "message \<Rightarrow> int" where
  "message_tokens m =
     (if has_role m then 1 else 0) +
     (case content m of
        No_Content \<Rightarrow> 0
      | Str_Content s \<Rightarrow> estimate_text_tokens (Str_Arg s)
      | List_Content items \<Rightarrow> sum_list (map content_item_tokens items)
      | Other_Content \<Rightarrow> 0)"

definition estimate_messages_tokens :: "message list \<Rightarrow> int" where
  "estimate_messages_tokens msgs =
     (let total_tokens = sum_list (map message_tokens msgs);
          overhead_tokens = int (length msgs) * 3
      in max 1 (total_tokens + overhead_tokens))"

record request =
  model :: string
  max_tokens :: int
  messages :: "message list"
  system :: text_arg

definition estimate_request_input_tokens :: "request \<Rightarrow> int" where
  "estimate_request_input_tokens req =
     (let t1 = (if messages req \<noteq> [] then estimate_messages_tokens (messages req) else 0);
          t2 = (if \<not> falsy_arg (system req) then t1 + estimate_text_tokens (system req) else t1)
      in max 1 (t2 + 5))"

definition estimate_input_tokens :: "request \<Rightarrow> int" where
  "estimate_input_tokens req = estimate_request_input_tokens req"

definition estimate_output_tokens :: "pystr \<Rightarrow> int" where
  "estimate_output_tokens text = estimate_text_tokens (Str_Arg text)"

section \<open>Target events\<close>

text \<open>
  Modelled from the spec: \<open>src/core/constants.py\<close> is not among the sources. The
  three stop-reason constants are the distinct values \<open>end_turn\<close>, \<open>max_tokens\<close> and
  \<open>tool_use\<close> of the spec's table, and the event-name constants are the distinct
  event types the spec lists; each is a constructor here.

  An event is what one \<open>yield\<close> of a translator sends. The random message id of
  \<open>message_start\<close> is left out. The index of a delta is optional because the code
  reads it from the accumulator's \<open>claude_index\<close>, which starts as \<open>None\<close>.
\<close>

datatype stop_reason = STOP_END_TURN | STOP_MAX_TOKENS | STOP_TOOL_USE

datatype content_block_start = CONTENT_TEXT | CONTENT_TOOL_USE "string option" "string option"

datatype block_delta = DELTA_TEXT pystr | DELTA_INPUT_JSON string

datatype event =
    EVENT_MESSAGE_START string
  | EVENT_CONTENT_BLOCK_START nat content_block_start
  | EVENT_PING
  | EVENT_CONTENT_BLOCK_DELTA "nat option" block_delta
  | EVENT_CONTENT_BLOCK_STOP nat
  | EVENT_MESSAGE_DELTA stop_reason int int
  | EVENT_MESSAGE_STOP
  | EVENT_ERROR string string

section \<open>Backend chunks\<close>

text \<open>
  The JSON objects the translators read, with the keys they read. An optional string
  that the code only tests for truthiness is an \<open>option\<close> (\<open>None\<close>: absent or
  \<open>null\<close>); where the code tells an absent key from \<open>null\<close> the key is a
  \<^typ>\<open>'a field\<close>. A usage object holds integer counts; each of its keys may be absent.
\<close>

record usage_rec =
  prompt_tokens :: "int option"
  completion_tokens :: "int option"
  input_tokens :: "int option"
  output_tokens :: "int option"

record fn_data =
  fn_name :: "string option"
  fn_arguments :: "string field"

record tc_delta =
  tc_index :: "int option"
  tc_id :: "string option"
  tc_function :: "fn_data field"

record delta_rec =
  delta_content :: "pystr option"
  tool_calls :: "tc_delta list field"

text \<open>
  The message of a complete result. Its tool calls carry their \<open>type\<close>, their id and
  the function's name and argument text; an absent key is \<open>None\<close>.
\<close>

record response_tool_call =
  call_type :: "string option"
  call_id :: "string option"
  call_name :: "string option"
  call_arguments :: "string option"

record response_message =
  text_content :: "pystr option"
  message_tool_calls :: "response_tool_call list"

text \<open>A choice: of a complete result (\<open>message\<close>) or of a chunk (\<open>delta\<close>).\<close>

record choice =
  message :: response_message
  delta :: delta_rec
  finish_reason :: "string field"

record error_info =
  err_type :: "string option"
  err_message :: "string option"

record chunk =
  chunk_error :: "error_info option"
  choices :: "choice list"
  usage :: "usage_rec option"

text \<open>
  One line of the backend stream after the tests of the loop head: blank, not starting
  with \<open>data: \<close>, the \<open>[DONE]\<close> sentinel, a payload that \<open>json.loads\<close> rejects, or a
  payload that parses to a JSON object.
\<close>

datatype line = Blank | Not_Data | Done | Malformed | Data chunk

text \<open>
  One turn of \<open>async for line in openai_stream\<close>: the iterator delivers a line, and
  \<open>http_request.is_disconnected()\<close> answers the given boolean when that line arrives
  (the basic translator does not ask), or the iterator raises.
\<close>

datatype stream_item = Yields bool line | Raises py_exn

section \<open>The cancellation registry\<close>

text \<open>\<open>OpenAIClient.active_requests\<close>: request id to whether its event is set.\<close>

type_synonym registry = "string \<rightharpoonup> bool"

definition cancel_request :: "registry \<Rightarrow> string \<Rightarrow> bool \<times> registry" where
  "cancel_request active_requests request_id =
     (if request_id \<in> dom active_requests
      then (True, active_requests(request_id \<mapsto> True))
      else (False, active_requests))"

section \<open>The streaming translators\<close>

text \<open>
  \<open>convert_openai_streaming_to_claude\<close> and
  \<open>convert_openai_streaming_to_claude_with_cancellation\<close> share their loop body line
  by line but for four places, which the variant selects: the disconnect test, the test
  for an inline \<open>error\<close> payload, the truthiness guard on \<open>delta["tool_calls"]\<close>, and the
  \<open>is not None\<close> guard on the argument text.
\<close>

datatype variant = Basic | With_Cancellation

record tool_call =
  tool_id :: "string option"
  tool_name :: "string option"
  args_buffer :: string
  json_sent :: bool
  claude_index :: "nat option"
  started :: bool

definition new_tool_call :: tool_call where
  "new_tool_call =
     \<lparr>tool_id = None, tool_name = None, args_buffer = [], json_sent = False,
      claude_index = None, started = False\<rparr>"

record stream_state =
  tool_block_counter :: nat
  current_tool_calls :: "(int \<times> tool_call) list"
  final_stop_reason :: stop_reason
  total_input_tokens :: int
  total_output_tokens :: int

definition text_block_index :: nat where
  "text_block_index = 0"

definition initial_state :: stream_state where
  "initial_state =
     \<lparr>tool_block_counter = 0, current_tool_calls = [], final_stop_reason = STOP_END_TURN,
      total_input_tokens = 0, total_output_tokens = 0\<rparr>"

text \<open>The accumulator of an index, created on first sight.\<close>

definition get_tool_call :: "(int \<times> tool_call) list \<Rightarrow> int \<Rightarrow> tool_call" where
  "get_tool_call calls i = (case map_of calls i of None \<Rightarrow> new_tool_call | Some tc \<Rightarrow> tc)"

text \<open>Lines 413 to 420: merge a provided id and name.\<close>

definition merge_id_name :: "tc_delta \<Rightarrow> fn_data \<Rightarrow> tool_call \<Rightarrow> tool_call" where
  "merge_id_name tcd function_data tc =
     (let tc1 = (if truthy (tc_id tcd) then tc\<lparr>tool_id := tc_id tcd\<rparr> else tc)
      in if truthy (fn_name function_data) then tc1\<lparr>tool_name := fn_name function_data\<rparr>
         else tc1)"

text \<open>Lines 422 to 429: open the block once id and name are known.\<close>

definition start_block :: "nat \<Rightarrow> tool_call \<Rightarrow> event list \<times> nat \<times> tool_call" where
  "start_block counter tc =
     (if truthy (tool_id tc) \<and> truthy (tool_name tc) \<and> \<not> started tc
      then
        let counter' = counter + 1;
            ci = text_block_index + counter'
        in ([EVENT_CONTENT_BLOCK_START ci (CONTENT_TOOL_USE (tool_id tc) (tool_name tc))],
            counter', tc\<lparr>claude_index := Some ci, started := True\<rparr>)
      else ([], counter, tc))"

text \<open>
  Lines 431 to 444 (220 to 233 in the basic translator, which has no \<open>is not None\<close>
  guard and so raises on \<open>started\<close> with a \<open>null\<close> argument text). \<open>json_loads\<close> is the
  library's parser: \<open>None\<close> stands for \<open>JSONDecodeError\<close>.
\<close>

definition handle_arguments ::
  "variant \<Rightarrow> (string \<Rightarrow> 'j option) \<Rightarrow> fn_data \<Rightarrow> tool_call \<Rightarrow> event list \<times> (py_exn + tool_call)" where
  "handle_arguments v json_loads function_data tc =
     (case fn_arguments function_data of
        Absent \<Rightarrow> ([], Inr tc)
      | Null \<Rightarrow>
          if started tc \<and> v = Basic
          then ([], Inl (TypeError ''can only concatenate str (not NoneType) to str''))
          else ([], Inr tc)
      | Val a \<Rightarrow>
          if started tc
          then
            let tc' = tc\<lparr>args_buffer := args_buffer tc @ a\<rparr>
            in (case json_loads (args_buffer tc') of
                  None \<Rightarrow> ([], Inr tc')
                | Some parsed \<Rightarrow>
                    if \<not> json_sent tc'
                    then ([EVENT_CONTENT_BLOCK_DELTA (claude_index tc')
                             (DELTA_INPUT_JSON (args_buffer tc'))],
                          Inr (tc'\<lparr>json_sent := True\<rparr>))
                    else ([], Inr tc'))
          else ([], Inr tc))"

text \<open>
  The body of \<open>for tc_delta in delta["tool_calls"]\<close>, from the point where
  \<open>function_data\<close> is a dict (an absent \<open>function\<close> key gives the empty dict).
\<close>

definition apply_function_data ::
  "variant \<Rightarrow> (string \<Rightarrow> 'j option) \<Rightarrow> tc_delta \<Rightarrow> fn_data \<Rightarrow> nat \<Rightarrow> (int \<times> tool_call) list
     \<Rightarrow> event list \<times> (py_exn + nat \<times> (int \<times> tool_call) list)" where
  "apply_function_data v json_loads tcd function_data counter calls =
     (let tc_idx = (case tc_index tcd of None \<Rightarrow> 0 | Some i \<Rightarrow> i);
          tc = get_tool_call calls tc_idx;
          tc1 = merge_id_name tcd function_data tc;
          (es1, counter', tc2) = start_block counter tc1
      in (case handle_arguments v json_loads function_data tc2 of
            (es2, Inl e) \<Rightarrow> (es1 @ es2, Inl e)
          | (es2, Inr tc3) \<Rightarrow> (es1 @ es2, Inr (counter', AList.update tc_idx tc3 calls))))"

text \<open>A \<open>function\<close> key holding \<open>null\<close> makes \<open>function_data.get\<close> raise.\<close>

definition handle_tc_delta ::
  "variant \<Rightarrow> (string \<Rightarrow> 'j option) \<Rightarrow> tc_delta \<Rightarrow> nat \<Rightarrow> (int \<times> tool_call) list
     \<Rightarrow> event list \<times> (py_exn + nat \<times> (int \<times> tool_call) list)" where
  "handle_tc_delta v json_loads tcd counter calls =
     (case tc_function tcd of
        Null \<Rightarrow> ([], Inl (AttributeError ''NoneType object has no attribute get''))
      | Absent \<Rightarrow>
          apply_function_data v json_loads tcd \<lparr>fn_name = None, fn_arguments = Absent\<rparr>
            counter calls
      | Val function_data \<Rightarrow>
          apply_function_data v json_loads tcd function_data counter calls)"

fun handle_tool_calls ::
  "variant \<Rightarrow> (string \<Rightarrow> 'j option) \<Rightarrow> tc_delta list \<Rightarrow> nat \<Rightarrow> (int \<times> tool_call) list
     \<Rightarrow> event list \<times> (py_exn + nat \<times> (int \<times> tool_call) list)" where
  "handle_tool_calls v json_loads [] counter calls = ([], Inr (counter, calls))"
| "handle_tool_calls v json_loads (tcd # rest) counter calls =
     (case handle_tc_delta v json_loads tcd counter calls of
        (es, Inl e) \<Rightarrow> (es, Inl e)
      | (es, Inr (counter', calls')) \<Rightarrow>
          (case handle_tool_calls v json_loads rest counter' calls' of
             (es', r) \<Rightarrow> (es @ es', r)))"

text \<open>Lines 370 to 379: usage extraction.\<close>

definition update_usage :: "usage_rec option \<Rightarrow> stream_state \<Rightarrow> stream_state" where
  "update_usage u st =
     (case u of
        None \<Rightarrow> st
      | Some us \<Rightarrow>
          let st1 = (case prompt_tokens us of
                       Some n \<Rightarrow> if n > 0 then st\<lparr>total_input_tokens := n\<rparr> else st
                     | None \<Rightarrow> st)
          in (case completion_tokens us of
                Some n \<Rightarrow> if n > 0 then st1\<lparr>total_output_tokens := n\<rparr> else st1
              | None \<Rightarrow> st1))"

text \<open>Lines 446 to 455: the \<open>if\<close>/\<open>elif\<close> chain on a truthy finish reason.\<close>

definition stream_stop_reason :: "string \<Rightarrow> stop_reason" where
  "stream_stop_reason fr =
     (if fr = ''length'' then STOP_MAX_TOKENS
      else if fr \<in> set [''tool_calls'', ''function_call''] then STOP_TOOL_USE
      else if fr = ''stop'' then STOP_END_TURN
      else STOP_END_TURN)"

text \<open>How the processing of one line leaves the loop body.\<close>

datatype step = Continue stream_state | Break stream_state | Return | Raise py_exn

definition inline_error_event :: "error_info \<Rightarrow> event" where
  "inline_error_event error_info =
     EVENT_ERROR
       (case err_type error_info of None \<Rightarrow> ''unknown_error'' | Some t \<Rightarrow> t)
       (case err_message error_info of None \<Rightarrow> ''Unknown error occurred'' | Some m \<Rightarrow> m)"

definition get_opt :: "'a field \<Rightarrow> 'a option" where
  "get_opt f = (case f of Val x \<Rightarrow> Some x | _ \<Rightarrow> None)"

definition process_choice ::
  "variant \<Rightarrow> (string \<Rightarrow> 'j option) \<Rightarrow> choice \<Rightarrow> stream_state \<Rightarrow> event list \<times> step" where
  "process_choice v json_loads ch st =
     (let text_events =
            (if truthy (delta_content (delta ch))
             then [EVENT_CONTENT_BLOCK_DELTA (Some text_block_index)
                     (DELTA_TEXT (case delta_content (delta ch) of Some t \<Rightarrow> t | None \<Rightarrow> []))]
             else []);
          tool_result =
            (case tool_calls (delta ch) of
               Absent \<Rightarrow> ([], Inr (tool_block_counter st, current_tool_calls st))
             | Null \<Rightarrow>
                 if v = Basic then ([], Inl (TypeError ''NoneType object is not iterable''))
                 else ([], Inr (tool_block_counter st, current_tool_calls st))
             | Val tcs \<Rightarrow>
                 handle_tool_calls v json_loads tcs (tool_block_counter st) (current_tool_calls st))
      in case tool_result of
           (tool_events, Inl e) \<Rightarrow> (text_events @ tool_events, Raise e)
         | (tool_events, Inr (counter', calls')) \<Rightarrow>
             let st' = st\<lparr>tool_block_counter := counter', current_tool_calls := calls'\<rparr>
             in if truthy (get_opt (finish_reason ch))
                then (text_events @ tool_events,
                      Break (st'\<lparr>final_stop_reason :=
                        stream_stop_reason (case get_opt (finish_reason ch) of Some s \<Rightarrow> s | None \<Rightarrow> [])\<rparr>))
                else (text_events @ tool_events, Continue st'))"

definition process_chunk ::
  "variant \<Rightarrow> (string \<Rightarrow> 'j option) \<Rightarrow> chunk \<Rightarrow> stream_state \<Rightarrow> event list \<times> step" where
  "process_chunk v json_loads c st =
     (if v = With_Cancellation \<and> chunk_error c \<noteq> None
      then (case chunk_error c of
              Some error_info \<Rightarrow> ([inline_error_event error_info], Return)
            | None \<Rightarrow> ([], Continue st))
      else case choices c of
             [] \<Rightarrow> ([], Continue st)
           | ch # others \<Rightarrow> process_choice v json_loads ch (update_usage (usage c) st))"

fun process_line ::
  "variant \<Rightarrow> (string \<Rightarrow> 'j option) \<Rightarrow> line \<Rightarrow> stream_state \<Rightarrow> event list \<times> step" where
  "process_line v json_loads Blank st = ([], Continue st)"
| "process_line v json_loads Not_Data st = ([], Continue st)"
| "process_line v json_loads Done st = ([], Break st)"
| "process_line v json_loads Malformed st = ([], Continue st)"
| "process_line v json_loads (Data c) st = process_chunk v json_loads c st"

text \<open>How the \<open>try\<close> block around the loop ends.\<close>

datatype loop_end = Loop_Done stream_state | Loop_Returned | Loop_Raised py_exn

fun run_loop ::
  "variant \<Rightarrow> (string \<Rightarrow> 'j option) \<Rightarrow> string \<Rightarrow> stream_item list \<Rightarrow> stream_state \<Rightarrow> registry
     \<Rightarrow> event list \<times> loop_end \<times> registry" where
  "run_loop v json_loads request_id [] st reg = ([], Loop_Done st, reg)"
| "run_loop v json_loads request_id (Raises e # rest) st reg = ([], Loop_Raised e, reg)"
| "run_loop v json_loads request_id (Yields disconnected l # rest) st reg =
     (if v = With_Cancellation \<and> disconnected
      then ([], Loop_Done st, snd (cancel_request reg request_id))
      else case process_line v json_loads l st of
             (es, Continue st') \<Rightarrow>
               (case run_loop v json_loads request_id rest st' reg of
                  (es', r) \<Rightarrow> (es @ es', r))
           | (es, Break st') \<Rightarrow> (es, Loop_Done st', reg)
           | (es, Return) \<Rightarrow> (es, Loop_Returned, reg)
           | (es, Raise e) \<Rightarrow> (es, Loop_Raised e, reg))"

text \<open>
  \<open>config.enable_token_estimation\<close> (lines 76, 268 and 494) reads an attribute of the
  module's \<open>config\<close> object, the instance of \<open>Config\<close> that \<open>src/core/config.py\<close>
  creates. The read gives the value of the attribute, or it raises \<open>AttributeError\<close>
  when the object has no attribute of that name: \<open>None\<close>. The object is an argument of
  the translators here. \<open>Config.__init__\<close> sets no attribute of that name, the class
  has no class attribute and no \<open>__getattr__\<close>, and nothing in the sources assigns
  one: on the repository's \<open>config\<close> the read raises.
\<close>

definition no_attribute_error :: py_exn where
  "no_attribute_error =
     AttributeError ''Config object has no attribute enable_token_estimation''"

definition config_enable_token_estimation :: "bool option" where
  "config_enable_token_estimation = None"

text \<open>
  How the generator ends for its consumer: it is exhausted, or an exception leaves it.
\<close>

datatype generator_end = Exhausted | Propagated py_exn

text \<open>
  Lines 486 to 519 (260 to 294 in the basic translator): the block stops, the read of
  the flag with the usage that follows from it, then message_delta and message_stop.
  The read stands outside every \<open>try\<close> block: its exception leaves the generator after
  the block stops are sent.
\<close>

definition tool_stops :: "(int \<times> tool_call) list \<Rightarrow> event list" where
  "tool_stops calls =
     concat (map (\<lambda>tool_data.
        if started tool_data
        then (case claude_index tool_data of
                Some ci \<Rightarrow> [EVENT_CONTENT_BLOCK_STOP ci]
              | None \<Rightarrow> [])
        else []) (map snd calls))"

definition final_usage ::
  "bool option \<Rightarrow> request \<Rightarrow> stream_state \<Rightarrow> py_exn + int \<times> int" where
  "final_usage config_flag original_request st =
     (case config_flag of
        None \<Rightarrow> Inl no_attribute_error
      | Some enable_token_estimation \<Rightarrow>
          if enable_token_estimation \<and> total_input_tokens st = 0 \<and> total_output_tokens st = 0
          then
            let estimated_input = estimate_input_tokens original_request;
                estimated_output = min (max_tokens original_request div 4) 50
            in Inr (estimated_input, estimated_output)
          else Inr (total_input_tokens st, total_output_tokens st))"

definition closing_events ::
  "bool option \<Rightarrow> request \<Rightarrow> stream_state \<Rightarrow> event list \<times> generator_end" where
  "closing_events config_flag original_request st =
     (let stops = [EVENT_CONTENT_BLOCK_STOP text_block_index]
                  @ tool_stops (current_tool_calls st)
      in case final_usage config_flag original_request st of
           Inl e \<Rightarrow> (stops, Propagated e)
         | Inr (i, out) \<Rightarrow>
             (stops @ [EVENT_MESSAGE_DELTA (final_stop_reason st) i out, EVENT_MESSAGE_STOP],
              Exhausted))"

definition opening_events :: "request \<Rightarrow> event list" where
  "opening_events original_request =
     [EVENT_MESSAGE_START (model original_request),
      EVENT_CONTENT_BLOCK_START 0 CONTENT_TEXT,
      EVENT_PING]"

definition api_error_event :: "py_exn \<Rightarrow> event" where
  "api_error_event e = EVENT_ERROR ''api_error'' (''Streaming error: '' @ exn_str e)"

definition cancelled_event :: event where
  "cancelled_event = EVENT_ERROR ''cancelled'' ''Request was cancelled by client''"

text \<open>The \<open>except\<close> clauses after the loop (247 to 258, and 458 to 484).\<close>

fun handle_exception :: "variant \<Rightarrow> py_exn \<Rightarrow> event list \<times> generator_end" where
  "handle_exception With_Cancellation (HTTPException status_code detail) =
     (if status_code = 499 then ([cancelled_event], Exhausted)
      else ([], Propagated (HTTPException status_code detail)))"
| "handle_exception v e = ([api_error_event e], Exhausted)"

definition convert_streaming ::
  "variant \<Rightarrow> (string \<Rightarrow> 'j option) \<Rightarrow> bool option \<Rightarrow> request \<Rightarrow> string \<Rightarrow> registry
     \<Rightarrow> stream_item list \<Rightarrow> event list \<times> generator_end \<times> registry" where
  "convert_streaming v json_loads config_flag original_request request_id reg
       openai_stream =
     (case run_loop v json_loads request_id openai_stream initial_state reg of
        (es, Loop_Done st, reg') \<Rightarrow>
          (case closing_events config_flag original_request st of
             (es', g) \<Rightarrow> (opening_events original_request @ es @ es', g, reg'))
      | (es, Loop_Returned, reg') \<Rightarrow> (opening_events original_request @ es, Exhausted, reg')
      | (es, Loop_Raised e, reg') \<Rightarrow>
          (case handle_exception v e of
             (es', g) \<Rightarrow> (opening_events original_request @ es @ es', g, reg')))"

definition convert_openai_streaming_to_claude ::
  "(string \<Rightarrow> 'j option) \<Rightarrow> bool option \<Rightarrow> request \<Rightarrow> stream_item list
     \<Rightarrow> event list \<times> generator_end" where
  "convert_openai_streaming_to_claude json_loads config_flag original_request
       openai_stream =
     (case convert_streaming Basic json_loads config_flag original_request []
             Map.empty openai_stream of
        (es, g, reg) \<Rightarrow> (es, g))"

definition convert_openai_streaming_to_claude_with_cancellation ::
  "(string \<Rightarrow> 'j option) \<Rightarrow> bool option \<Rightarrow> request \<Rightarrow> string \<Rightarrow> registry
     \<Rightarrow> stream_item list \<Rightarrow> event list \<times> generator_end \<times> registry" where
  "convert_openai_streaming_to_claude_with_cancellation json_loads config_flag
       original_request request_id reg openai_stream =
     convert_streaming With_Cancellation json_loads config_flag original_request
       request_id reg openai_stream"

section \<open>The non-streaming translator\<close>

record openai_response =
  response_id :: "string option"
  result_choices :: "choice list"
  result_usage :: "usage_rec field"

datatype 'j tool_input = Parsed 'j | Raw_Arguments string

text \<open>An id taken from the backend, or a freshly generated one (a random UUID).\<close>

datatype an_id = Given string | Generated

datatype 'j content_block =
    Text_Block pystr
  | Tool_Use_Block an_id string "'j tool_input"

record 'j claude_response =
  claude_id :: an_id
  claude_model :: string
  claude_content :: "'j content_block list"
  stop_reason :: stop_reason
  usage_input_tokens :: int
  usage_output_tokens :: int

text \<open>
  Lines 38 to 55. \<open>TOOL_FUNCTION\<close> is \<open>Constants.TOOL_FUNCTION\<close>, which is not among
  the sources: a parameter. A missing \<open>arguments\<close> key parses as \<open>"{}"\<close>.
\<close>

definition tool_use_block ::
  "(string \<Rightarrow> 'j option) \<Rightarrow> response_tool_call \<Rightarrow> 'j content_block" where
  "tool_use_block json_loads tc =
     (let arguments =
            (case json_loads (case call_arguments tc of None \<Rightarrow> ''{}'' | Some a \<Rightarrow> a) of
               Some parsed \<Rightarrow> Parsed parsed
             | None \<Rightarrow> Raw_Arguments (case call_arguments tc of None \<Rightarrow> [] | Some a \<Rightarrow> a))
      in Tool_Use_Block
           (case call_id tc of None \<Rightarrow> Generated | Some i \<Rightarrow> Given i)
           (case call_name tc of None \<Rightarrow> [] | Some n \<Rightarrow> n)
           arguments)"

text \<open>Lines 30 to 59: the content blocks.\<close>

definition build_content_blocks ::
  "string \<Rightarrow> (string \<Rightarrow> 'j option) \<Rightarrow> response_message \<Rightarrow> 'j content_block list" where
  "build_content_blocks TOOL_FUNCTION json_loads msg =
     (let text_blocks =
            (case text_content msg of
               Some t \<Rightarrow> if t \<noteq> [] then [Text_Block t] else []
             | None \<Rightarrow> []);
          tool_blocks =
            map (tool_use_block json_loads)
              (filter (\<lambda>tc. call_type tc = Some TOOL_FUNCTION) (message_tool_calls msg));
          content_blocks = text_blocks @ tool_blocks
      in if content_blocks = [] then [Text_Block []] else content_blocks)"

text \<open>Lines 61 to 68: the finish-reason table, a dict literal read with a default.\<close>

definition finish_reason_table :: "(string \<times> stop_reason) list" where
  "finish_reason_table =
     [(''stop'', STOP_END_TURN), (''length'', STOP_MAX_TOKENS),
      (''tool_calls'', STOP_TOOL_USE), (''function_call'', STOP_TOOL_USE)]"

definition response_stop_reason :: "string field \<Rightarrow> stop_reason" where
  "response_stop_reason f =
     (let fr = (case f of Absent \<Rightarrow> Some ''stop'' | Null \<Rightarrow> None | Val s \<Rightarrow> Some s)
      in case fr of
           None \<Rightarrow> STOP_END_TURN
         | Some s \<Rightarrow> (case map_of finish_reason_table s of None \<Rightarrow> STOP_END_TURN | Some r \<Rightarrow> r))"

definition get_or_zero :: "int option \<Rightarrow> int" where
  "get_or_zero x = (case x of None \<Rightarrow> 0 | Some n \<Rightarrow> n)"

text \<open>\<open>should_use_estimation\<close> of \<open>token_estimator.py\<close>, on a usage dict.\<close>

definition should_use_estimation :: "usage_rec \<Rightarrow> bool" where
  "should_use_estimation usage_data =
     (let i = (case prompt_tokens usage_data of
                 Some n \<Rightarrow> n | None \<Rightarrow> get_or_zero (input_tokens usage_data));
          out = (case completion_tokens usage_data of
                   Some n \<Rightarrow> n | None \<Rightarrow> get_or_zero (output_tokens usage_data))
      in i = 0 \<and> out = 0)"

definition empty_usage :: usage_rec where
  "empty_usage =
     \<lparr>prompt_tokens = None, completion_tokens = None, input_tokens = None,
      output_tokens = None\<rparr>"

fun block_text :: "'j content_block \<Rightarrow> pystr" where
  "block_text (Text_Block t) = t"
| "block_text (Tool_Use_Block i n a) = []"

text \<open>
  \<open>convert_openai_to_claude_response\<close>. A \<open>usage\<close> key holding \<open>null\<close> makes
  \<open>usage_data.get\<close> raise (line 72); the read of the flag follows (line 76), and the
  response is built after it.
\<close>

definition convert_openai_to_claude_response ::
  "string \<Rightarrow> (string \<Rightarrow> 'j option) \<Rightarrow> bool option \<Rightarrow> openai_response \<Rightarrow> request
     \<Rightarrow> py_exn + 'j claude_response" where
  "convert_openai_to_claude_response TOOL_FUNCTION json_loads config_flag
       response original_request =
     (case result_choices response of
        [] \<Rightarrow> Inl (HTTPException 500 ''No choices in OpenAI response'')
      | ch # others \<Rightarrow>
          let content_blocks = build_content_blocks TOOL_FUNCTION json_loads (message ch);
              sr = response_stop_reason (finish_reason ch)
          in (case result_usage response of
                Null \<Rightarrow> Inl (AttributeError ''NoneType object has no attribute get'')
              | u \<Rightarrow>
                  let usage_data = (case u of Val d \<Rightarrow> d | _ \<Rightarrow> empty_usage)
                  in (case config_flag of
                        None \<Rightarrow> Inl no_attribute_error
                      | Some enable_token_estimation \<Rightarrow>
                          let estimating =
                                (enable_token_estimation \<and> should_use_estimation usage_data)
                          in Inr \<lparr>claude_id =
                                     (case response_id response of
                                        None \<Rightarrow> Generated | Some i \<Rightarrow> Given i),
                                   claude_model = model original_request,
                                   claude_content = content_blocks,
                                   stop_reason = sr,
                                   usage_input_tokens =
                                     (if estimating then estimate_input_tokens original_request
                                      else get_or_zero (prompt_tokens usage_data)),
                                   usage_output_tokens =
                                     (if estimating
                                      then estimate_output_tokens
                                             (concat (map block_text content_blocks))
                                      else get_or_zero (completion_tokens usage_data))\<rparr>)))"

section \<open>The completion client\<close>

text \<open>
  What other tasks can do to \<open>active_requests\<close> while a call awaits: set an event
  (\<open>cancel_request\<close>), insert an unset event (another call starting), delete an entry
  (another call ending).
\<close>

datatype reg_op = Op_Cancel string | Op_Insert string | Op_Delete string

fun apply_op :: "reg_op \<Rightarrow> registry \<Rightarrow> registry" where
  "apply_op (Op_Cancel i) reg = snd (cancel_request reg i)"
| "apply_op (Op_Insert i) reg = reg(i \<mapsto> False)"
| "apply_op (Op_Delete i) reg = reg(i := None)"

text \<open>The head of both calls: \<open>if request_id: self.active_requests[request_id] = Event()\<close>.\<close>

definition register :: "string \<Rightarrow> registry \<Rightarrow> registry" where
  "register request_id reg = (if request_id \<noteq> [] then reg(request_id \<mapsto> False) else reg)"

text \<open>The \<open>finally\<close> clause of both calls.\<close>

definition cleanup :: "string \<Rightarrow> registry \<Rightarrow> registry" where
  "cleanup request_id reg =
     (if request_id \<noteq> [] \<and> request_id \<in> dom reg then reg(request_id := None) else reg)"

text \<open>
  How the awaited backend call of \<open>create_chat_completion\<close> comes out: it completes,
  the cancellation event wins the race, or it raises one of the classes the handlers
  tell apart (\<open>APIError\<close> with its optional \<open>status_code\<close>). The message is \<open>str(e)\<close>.
\<close>

datatype 'r backend_outcome =
    Completes 'r
  | Cancel_First
  | Raises_AuthenticationError string
  | Raises_RateLimitError string
  | Raises_BadRequestError string
  | Raises_APIError "int option" string
  | Raises_Other string

text \<open>
  The \<open>try\<close> block with its \<open>except\<close> clauses. \<open>classify\<close> is
  \<open>classify_openai_error\<close>, whose text plays no part here. The \<open>HTTPException\<close> of a
  cancellation is raised inside the \<open>try\<close> and meets \<open>except Exception\<close>.
\<close>

fun completion_result :: "(string \<Rightarrow> string) \<Rightarrow> 'r backend_outcome \<Rightarrow> py_exn + 'r" where
  "completion_result classify (Completes r) = Inr r"
| "completion_result classify Cancel_First =
     Inl (HTTPException 500 (''Unexpected error: '' @ ''499: Request cancelled by client''))"
| "completion_result classify (Raises_AuthenticationError m) = Inl (HTTPException 401 (classify m))"
| "completion_result classify (Raises_RateLimitError m) = Inl (HTTPException 429 (classify m))"
| "completion_result classify (Raises_BadRequestError m) = Inl (HTTPException 400 (classify m))"
| "completion_result classify (Raises_APIError status m) =
     Inl (HTTPException (case status of None \<Rightarrow> 500 | Some c \<Rightarrow> c) (classify m))"
| "completion_result classify (Raises_Other m) = Inl (HTTPException 500 (''Unexpected error: '' @ m))"

definition create_chat_completion ::
  "(string \<Rightarrow> string) \<Rightarrow> string \<Rightarrow> reg_op list \<Rightarrow> 'r backend_outcome \<Rightarrow> registry
     \<Rightarrow> (py_exn + 'r) \<times> registry" where
  "create_chat_completion classify request_id env_ops outcome reg =
     (let reg1 = register request_id reg;
          reg2 = fold apply_op env_ops reg1
      in (completion_result classify outcome, cleanup request_id reg2))"

text \<open>
  \<open>create_chat_completion_stream\<close> is an async generator. What its consumer does at a
  \<open>yield\<close>: ask for the next item, close the generator (\<open>GeneratorExit\<close> is raised at
  the \<open>yield\<close>), or leave it suspended.
\<close>

datatype consumer = Resume | Close | Abandon

text \<open>
  How one \<open>__anext__\<close> of the backend iterator comes out, within the 30 second limit: a
  chunk (\<open>None\<close> when \<open>model_dump\<close> or \<open>json.dumps\<close> raises on it), the time limit, or
  another exception; or the task itself is cancelled while waiting. The end of the
  iterator (\<open>StopAsyncIteration\<close>) is the end of the list of iterations.
\<close>

datatype fetch_outcome =
    Next_Chunk "chunk option"
  | Timeout nat
  | Fetch_Error string
  | Task_Cancelled

record iteration =
  env_ops :: "reg_op list"
  fetched :: fetch_outcome
  at_yield :: consumer

datatype body_end = Body_Done | Body_Closed | Body_Suspended | Body_Cancelled

fun after_yield :: "consumer \<Rightarrow> body_end" where
  "after_yield Resume = Body_Done"
| "after_yield Close = Body_Closed"
| "after_yield Abandon = Body_Suspended"

definition error_line :: "string \<Rightarrow> string \<Rightarrow> line" where
  "error_line ty msg =
     Data \<lparr>chunk_error = Some \<lparr>err_type = Some ty, err_message = Some msg\<rparr>,
           choices = [], usage = None\<rparr>"

definition is_set :: "string \<Rightarrow> registry \<Rightarrow> bool" where
  "is_set request_id reg =
     (request_id \<noteq> [] \<and> (case reg request_id of Some b \<Rightarrow> b | None \<Rightarrow> False))"

definition ends_stream :: "chunk \<Rightarrow> bool" where
  "ends_stream c =
     (case choices c of
        [] \<Rightarrow> False
      | ch # others \<Rightarrow>
          get_opt (finish_reason ch) \<in>
            set (map Some [''stop'', ''length'', ''function_call'', ''tool_calls'',
                           ''content_filter'']))"

text \<open>
  The \<open>while not stream_finished\<close> loop (lines 149 to 213), with the final
  \<open>yield "data: [DONE]"\<close>. \<open>at_done\<close> is what the consumer does at that last yield.
\<close>

fun stream_loop ::
  "string \<Rightarrow> iteration list \<Rightarrow> consumer \<Rightarrow> registry \<Rightarrow> line list \<times> body_end \<times> registry" where
  "stream_loop request_id [] at_done reg = ([Done], after_yield at_done, reg)"
| "stream_loop request_id (it # rest) at_done reg =
     (let reg1 = fold apply_op (env_ops it) reg
      in case fetched it of
           Task_Cancelled \<Rightarrow> ([], Body_Cancelled, reg1)
         | Timeout chunk_count \<Rightarrow>
             ([error_line ''timeout_error'' ''Timeout waiting for streaming chunk''],
              after_yield (at_yield it), reg1)
         | Fetch_Error m \<Rightarrow>
             ([error_line ''stream_error'' (''Streaming error: '' @ m)],
              after_yield (at_yield it), reg1)
         | Next_Chunk co \<Rightarrow>
             if is_set request_id reg1
             then ([error_line ''client_error'' ''Request cancelled by client''],
                   after_yield (at_yield it), reg1)
             else (case co of
                     None \<Rightarrow> stream_loop request_id rest at_done reg1
                   | Some c \<Rightarrow>
                       (case at_yield it of
                          Close \<Rightarrow> ([Data c], Body_Closed, reg1)
                        | Abandon \<Rightarrow> ([Data c], Body_Suspended, reg1)
                        | Resume \<Rightarrow>
                            if ends_stream c
                            then ([Data c, Done], after_yield at_done, reg1)
                            else (case stream_loop request_id rest at_done reg1 of
                                    (ls, e, reg2) \<Rightarrow> (Data c # ls, e, reg2)))))"

text \<open>How the awaited \<open>create\<close> call of the generator comes out.\<close>

datatype create_outcome = Created | Create_Fails string consumer | Create_Cancelled

datatype generator_status = Gen_Exhausted | Gen_Closed | Gen_Suspended | Gen_Cancelled

fun status_of :: "body_end \<Rightarrow> generator_status" where
  "status_of Body_Done = Gen_Exhausted"
| "status_of Body_Closed = Gen_Closed"
| "status_of Body_Suspended = Gen_Suspended"
| "status_of Body_Cancelled = Gen_Cancelled"

text \<open>
  The generator run against a backend and a consumer. The \<open>finally\<close> clause runs when
  the body is left, which a suspended generator has not been.
\<close>

definition create_chat_completion_stream ::
  "string \<Rightarrow> reg_op list \<Rightarrow> create_outcome \<Rightarrow> iteration list \<Rightarrow> consumer \<Rightarrow> registry
     \<Rightarrow> line list \<times> generator_status \<times> registry" where
  "create_chat_completion_stream request_id ops created script at_done reg =
     (let reg1 = fold apply_op ops (register request_id reg);
          (ls, e, reg2) =
            (case created of
               Create_Fails m act \<Rightarrow>
                 ([error_line ''connection_error'' (''Failed to start streaming: '' @ m)],
                  after_yield act, reg1)
             | Create_Cancelled \<Rightarrow> ([], Body_Cancelled, reg1)
             | Created \<Rightarrow> stream_loop request_id script at_done reg1)
      in (ls, status_of e, if e = Body_Suspended then reg2 else cleanup request_id reg2))"

section \<open>Reading the loop\<close>

text \<open>
  The loop passes through a prefix of the stream when every line of it is processed and
  the loop goes on: no line of the prefix breaks, returns or raises, and (in the
  cancellation-aware translator) the client is connected at each of them. The result
  is the events sent and the state reached.
\<close>

fun passes ::
  "variant \<Rightarrow> (string \<Rightarrow> 'j option) \<Rightarrow> stream_item list \<Rightarrow> stream_state
     \<Rightarrow> (event list \<times> stream_state) option" where
  "passes v json_loads [] st = Some ([], st)"
| "passes v json_loads (Raises e # rest) st = None"
| "passes v json_loads (Yields disconnected l # rest) st =
     (if v = With_Cancellation \<and> disconnected then None
      else case process_line v json_loads l st of
             (es, Continue st') \<Rightarrow>
               (case passes v json_loads rest st' of
                  None \<Rightarrow> None
                | Some (es', st'') \<Rightarrow> Some (es @ es', st''))
           | (es, other) \<Rightarrow> None)"

text \<open>The finish-reason table in the spec's words.\<close>

definition spec_finish_table :: "string \<Rightarrow> stop_reason" where
  "spec_finish_table fr =
     (if fr = ''stop'' then STOP_END_TURN
      else if fr = ''length'' then STOP_MAX_TOKENS
      else if fr = ''tool_calls'' \<or> fr = ''function_call'' then STOP_TOOL_USE
      else STOP_END_TURN)"

section \<open>Concrete inputs\<close>

definition sample_request :: request where
  "sample_request =
     \<lparr>model = ''claude-3-haiku'', max_tokens = 100,
      messages = [\<lparr>has_role = True, content = Str_Content [116, 101, 115, 116]\<rparr>],
      system = None_Arg\<rparr>"

definition no_delta :: delta_rec where
  "no_delta = \<lparr>delta_content = None, tool_calls = Absent\<rparr>"

definition no_message :: response_message where
  "no_message = \<lparr>text_content = None, message_tool_calls = []\<rparr>"

definition finish_chunk :: "string \<Rightarrow> chunk" where
  "finish_chunk fr =
     \<lparr>chunk_error = None,
      choices = [\<lparr>message = no_message, delta = no_delta, finish_reason = Val fr\<rparr>],
      usage = None\<rparr>"

definition finish_response :: "string \<Rightarrow> openai_response" where
  "finish_response fr =
     \<lparr>response_id = Some ''chatcmpl-1'',
      result_choices = [\<lparr>message = no_message, delta = no_delta, finish_reason = Val fr\<rparr>],
      result_usage = Val \<lparr>prompt_tokens = Some 7, completion_tokens = Some 3,
                         input_tokens = None, output_tokens = None\<rparr>\<rparr>"

text \<open>A parser that rejects everything, for inputs on which parsing plays no part.\<close>

definition no_json :: "string \<Rightarrow> unit option" where
  "no_json s = None"

definition usage_chunk :: "choice list \<Rightarrow> int \<Rightarrow> int \<Rightarrow> chunk" where
  "usage_chunk chs p c =
     \<lparr>chunk_error = None, choices = chs,
      usage = Some \<lparr>prompt_tokens = Some p, completion_tokens = Some c,
                    input_tokens = None, output_tokens = None\<rparr>\<rparr>"

definition plain_choice :: choice where
  "plain_choice = \<lparr>message = no_message, delta = no_delta, finish_reason = Null\<rparr>"

definition text_response :: "pystr option \<Rightarrow> openai_response" where
  "text_response t =
     \<lparr>response_id = Some ''chatcmpl-1'',
      result_choices =
        [\<lparr>message = \<lparr>text_content = t, message_tool_calls = []\<rparr>, delta = no_delta,
          finish_reason = Val ''stop''\<rparr>],
      result_usage = Val \<lparr>prompt_tokens = Some 7, completion_tokens = Some 3,
                         input_tokens = None, output_tokens = None\<rparr>\<rparr>"

section \<open>Reading the events\<close>

fun start_index :: "event \<Rightarrow> nat option" where
  "start_index (EVENT_CONTENT_BLOCK_START i b) = Some i"
| "start_index e = None"

fun stop_index :: "event \<Rightarrow> nat option" where
  "stop_index (EVENT_CONTENT_BLOCK_STOP i) = Some i"
| "stop_index e = None"

fun is_error :: "event \<Rightarrow> bool" where
  "is_error (EVENT_ERROR t m) = True"
| "is_error e = False"

text \<open>The events of the closing sequence.\<close>

fun is_closing :: "event \<Rightarrow> bool" where
  "is_closing (EVENT_CONTENT_BLOCK_STOP i) = True"
| "is_closing (EVENT_MESSAGE_DELTA r i out) = True"
| "is_closing EVENT_MESSAGE_STOP = True"
| "is_closing e = False"

text \<open>The two events that end a message: message_delta and message_stop.\<close>

fun is_message_end :: "event \<Rightarrow> bool" where
  "is_message_end (EVENT_MESSAGE_DELTA r i out) = True"
| "is_message_end EVENT_MESSAGE_STOP = True"
| "is_message_end e = False"

text \<open>The events the loop body sends while it goes on: block starts and deltas.\<close>

fun is_block_event :: "event \<Rightarrow> bool" where
  "is_block_event (EVENT_CONTENT_BLOCK_START i b) = True"
| "is_block_event (EVENT_CONTENT_BLOCK_DELTA i d) = True"
| "is_block_event e = False"

definition started_blocks :: "event list \<Rightarrow> nat list" where
  "started_blocks es = List.map_filter start_index es"

definition stopped_blocks :: "event list \<Rightarrow> nat list" where
  "stopped_blocks es = List.map_filter stop_index es"

text \<open>
  Every content_block_start of the sequence is followed, later in the sequence, by
  exactly one content_block_stop with its index.
\<close>

fun blocks_closed :: "event list \<Rightarrow> bool" where
  "blocks_closed [] = True"
| "blocks_closed (e # es) =
     ((case start_index e of
         None \<Rightarrow> True
       | Some i \<Rightarrow> count_list (stopped_blocks es) i = 1)
      \<and> blocks_closed es)"

text \<open>The output indices of the started accumulators, in the order of the dict.\<close>

definition started_index :: "tool_call \<Rightarrow> nat list" where
  "started_index tc =
     (if started tc then (case claude_index tc of Some ci \<Rightarrow> [ci] | None \<Rightarrow> []) else [])"

definition started_indices :: "(int \<times> tool_call) list \<Rightarrow> nat list" where
  "started_indices calls = concat (map started_index (map snd calls))"

text \<open>
  What one piece of the loop body does to the block counter, the accumulators and the
  output: it sends block events only, it starts the blocks numbered from the old
  counter to the new one, in that order, and these are the indices the accumulators
  gain.
\<close>

definition step_ok ::
  "nat \<Rightarrow> (int \<times> tool_call) list \<Rightarrow> event list \<Rightarrow> nat \<Rightarrow> (int \<times> tool_call) list \<Rightarrow> bool" where
  "step_ok c calls es c' calls' =
     (c \<le> c' \<and> started_blocks es = [Suc c..<Suc c'] \<and> list_all is_block_event es
      \<and> mset (started_indices calls') = mset (started_indices calls) + mset [Suc c..<Suc c'])"

definition state_step :: "stream_state \<Rightarrow> event list \<Rightarrow> stream_state \<Rightarrow> bool" where
  "state_step st es st' =
     step_ok (tool_block_counter st) (current_tool_calls st) es
       (tool_block_counter st') (current_tool_calls st')"

definition tool_chunk :: "tc_delta list \<Rightarrow> chunk" where
  "tool_chunk tcs =
     \<lparr>chunk_error = None,
      choices = [\<lparr>message = no_message,
                  delta = \<lparr>delta_content = None, tool_calls = Val tcs\<rparr>,
                  finish_reason = Null\<rparr>],
      usage = None\<rparr>"

text \<open>
  The deltas of one tool call, index 0: the first carries the id, the name and an
  argument fragment, the following ones a fragment only.
\<close>

definition first_fragment :: "string \<Rightarrow> string \<Rightarrow> string \<Rightarrow> tc_delta" where
  "first_fragment i n a =
     \<lparr>tc_index = Some 0, tc_id = Some i,
      tc_function = Val \<lparr>fn_name = Some n, fn_arguments = Val a\<rparr>\<rparr>"

definition next_fragment :: "string \<Rightarrow> tc_delta" where
  "next_fragment a =
     \<lparr>tc_index = Some 0, tc_id = None,
      tc_function = Val \<lparr>fn_name = None, fn_arguments = Val a\<rparr>\<rparr>"

text \<open>The input_json deltas of an event sequence: block index and text.\<close>

fun json_delta :: "event \<Rightarrow> (nat option \<times> string) option" where
  "json_delta (EVENT_CONTENT_BLOCK_DELTA i (DELTA_INPUT_JSON s)) = Some (i, s)"
| "json_delta e = None"

definition json_deltas :: "event list \<Rightarrow> (nat option \<times> string) list" where
  "json_deltas es = List.map_filter json_delta es"

text \<open>
  The stream of one tool call whose first delta carries its id, its name and the first
  argument fragment, one chunk for each fragment.
\<close>

fun fragment_stream :: "string \<Rightarrow> string \<Rightarrow> string list \<Rightarrow> stream_item list" where
  "fragment_stream i n [] = []"
| "fragment_stream i n (a # as) =
     Yields False (Data (tool_chunk [first_fragment i n a]))
     # map (\<lambda>a. Yields False (Data (tool_chunk [next_fragment a]))) as"

text \<open>
  In the spec's words: the buffer after the first fragment with which it parses, if
  there is one.
\<close>

fun first_parse :: "(string \<Rightarrow> 'j option) \<Rightarrow> string \<Rightarrow> string list \<Rightarrow> string option" where
  "first_parse jl buf [] = None"
| "first_parse jl buf (a # as) =
     (if jl (buf @ a) \<noteq> None then Some (buf @ a) else first_parse jl (buf @ a) as)"

text \<open>A parser that accepts one text only; \<open>json.loads\<close> agrees with it where it is used.\<close>

definition accepts_only :: "string \<Rightarrow> string \<Rightarrow> unit option" where
  "accepts_only ok s = (if s = ok then Some () else None)"

text \<open>
  What the loop keeps true of an accumulator: the delta is sent only in a started block,
  and a started block has its output index.
\<close>

definition well_formed :: "tool_call \<Rightarrow> bool" where
  "well_formed tc = ((json_sent tc \<longrightarrow> started tc) \<and> (started tc \<longrightarrow> claude_index tc \<noteq> None))"

text \<open>The index under which the input_json delta of an accumulator was sent, if it was.\<close>

definition sent_index :: "tool_call \<Rightarrow> nat option list" where
  "sent_index tc = (if json_sent tc \<and> started tc then [claude_index tc] else [])"

definition sent_indices :: "(int \<times> tool_call) list \<Rightarrow> nat option list" where
  "sent_indices calls = concat (map sent_index (map snd calls))"

text \<open>
  The counter, the accumulators and the events sent so far: the started blocks are
  numbered 1 to the counter, and the input_json deltas sent are those of the
  accumulators marked as sent.
\<close>

definition delta_inv :: "nat \<Rightarrow> (int \<times> tool_call) list \<Rightarrow> event list \<Rightarrow> bool" where
  "delta_inv c calls es =
     (list_all well_formed (map snd calls)
      \<and> mset (started_indices calls) = mset [Suc 0..<Suc c]
      \<and> mset (map fst (json_deltas es)) = mset (sent_indices calls))"

text \<open>
  The estimate in the spec's words: 0 for the empty text; otherwise the fraction of
  CJK-range characters picks the divisor (above 0.7: 1.2, below 0.1: 4.0, otherwise
  2.5), and the result is max(1, floor(charCount / divisor)). The numbers are
  rationals here: 0.7 is 7/10, 1.2 is 12/10.
\<close>

definition cjk_fraction :: "pystr \<Rightarrow> rat" where
  "cjk_fraction text = of_nat (length (filter is_cjk text)) / of_nat (length text)"

definition spec_divisor :: "pystr \<Rightarrow> rat" where
  "spec_divisor text =
     (if 7 / 10 < cjk_fraction text then 12 / 10
      else if cjk_fraction text < 1 / 10 then 4
      else 25 / 10)"

definition spec_estimate :: "pystr \<Rightarrow> int" where
  "spec_estimate text =
     (if text = [] then 0 else max 1 \<lfloor>of_nat (length text) / spec_divisor text\<rfloor>)"

section \<open>The loop, piecewise\<close>

lemma run_loop_passes:
  "passes v jl pre st = Some (es, st') \<Longrightarrow>
   run_loop v jl rid (pre @ rest) st reg =
     (case run_loop v jl rid rest st' reg of (es', r) \<Rightarrow> (es @ es', r))"
proof (induction pre arbitrary: st es)
  case Nil
  then show ?case by (simp split: prod.splits)
next
  case (Cons item pre)
  show ?case
  proof (cases item)
    case (Raises e)
    with Cons.prems show ?thesis by simp
  next
    case (Yields d l)
    from Cons.prems Yields have nd: "\<not> (v = With_Cancellation \<and> d)"
      by (auto split: if_splits)
    obtain es1 s1 where pl: "process_line v jl l st = (es1, s1)"
      by (cases "process_line v jl l st")
    from Cons.prems Yields nd pl obtain st1 where s1: "s1 = Continue st1"
      by (cases s1) (auto split: if_splits)
    from Cons.prems Yields nd pl s1 obtain es2 where
      p2: "passes v jl pre st1 = Some (es2, st')" and es: "es = es1 @ es2"
      by (auto split: if_splits option.splits)
    from Cons.IH[OF p2] Yields nd pl s1 es show ?thesis
      by (auto split: prod.splits)
  qed
qed

section \<open>The claims\<close>

text \<open>
  C6. The non-streaming and the streaming translator map the backend finish reason to
  the stop reason by the spec's one table: stop to end_turn, length to max_tokens,
  tool_calls and function_call to tool_use, anything else to end_turn. The
  non-streaming translator reports the table's value for the finish reason of the first
  choice (a missing key counting as stop); the streaming translator, when a chunk with
  a non-empty finish reason ends the loop, holds the table's value as its final stop
  reason, which the message_delta event of the closing sequence carries (when the read
  of the configuration flag gives a value). So length gives max_tokens on both paths.
\<close>

theorem finish_reason_same_table:
  "response_stop_reason (Val fr) = spec_finish_table fr
   \<and> response_stop_reason Absent = spec_finish_table ''stop''
   \<and> stream_stop_reason fr = spec_finish_table fr
   \<and> (\<forall>r ch others. convert_openai_to_claude_response tf jl en resp req = Inr r
         \<and> result_choices resp = ch # others \<and> finish_reason ch = Val fr
         \<longrightarrow> stop_reason r = spec_finish_table fr)
   \<and> (\<forall>es st' ch others. process_line v jl (Data c) st = (es, Break st')
         \<and> choices c = ch # others \<and> finish_reason ch = Val fr
         \<longrightarrow> final_stop_reason st' = spec_finish_table fr)
   \<and> (\<forall>es st' reg' b. run_loop v jl rid stream initial_state reg = (es, Loop_Done st', reg')
         \<and> en = Some b
         \<longrightarrow> (\<exists>i out. fst (convert_streaming v jl en req rid reg stream) =
                opening_events req @ es @ [EVENT_CONTENT_BLOCK_STOP text_block_index]
                @ tool_stops (current_tool_calls st')
                @ [EVENT_MESSAGE_DELTA (final_stop_reason st') i out, EVENT_MESSAGE_STOP]))
   \<and> spec_finish_table ''length'' = STOP_MAX_TOKENS"
proof -
  have t1: "response_stop_reason (Val fr) = spec_finish_table fr"
    by (simp add: response_stop_reason_def spec_finish_table_def finish_reason_table_def)
  have t2: "response_stop_reason Absent = spec_finish_table ''stop''"
    by (simp add: response_stop_reason_def spec_finish_table_def finish_reason_table_def)
  have t3: "stream_stop_reason fr = spec_finish_table fr"
    by (simp add: stream_stop_reason_def spec_finish_table_def)
  have t4: "stop_reason r = spec_finish_table fr"
    if "convert_openai_to_claude_response tf jl en resp req = Inr r"
      and "result_choices resp = ch # others" and "finish_reason ch = Val fr"
    for r ch others
    using that t1
    by (auto simp: convert_openai_to_claude_response_def Let_def
        split: field.splits option.splits)
  have t5: "final_stop_reason st' = spec_finish_table fr"
    if "process_line v jl (Data c) st = (es, Break st')"
      and "choices c = ch # others" and "finish_reason ch = Val fr"
    for es st' ch others
    using that t3
    by (auto simp: process_chunk_def process_choice_def Let_def get_opt_def
        split: if_splits option.splits prod.splits sum.splits)
  have t6: "\<exists>i out. fst (convert_streaming v jl en req rid reg stream) =
                opening_events req @ es @ [EVENT_CONTENT_BLOCK_STOP text_block_index]
                @ tool_stops (current_tool_calls st')
                @ [EVENT_MESSAGE_DELTA (final_stop_reason st') i out, EVENT_MESSAGE_STOP]"
    if "run_loop v jl rid stream initial_state reg = (es, Loop_Done st', reg')"
      and "en = Some b"
    for es st' reg' b
    using that
    by (auto simp: convert_streaming_def closing_events_def final_usage_def Let_def)
  have t7: "spec_finish_table ''length'' = STOP_MAX_TOKENS"
    by (simp add: spec_finish_table_def)
  from t1 t2 t3 t4 t5 t6 t7 show ?thesis by blast
qed

theorem finish_reason_same_table_witness:
  "(\<exists>r. convert_openai_to_claude_response ''function'' no_json (Some False)
          (finish_response ''length'') sample_request = Inr r
        \<and> stop_reason r = STOP_MAX_TOKENS)
   \<and> (\<exists>es st'. process_line With_Cancellation no_json (Data (finish_chunk ''length''))
          initial_state = (es, Break st')
        \<and> final_stop_reason st' = STOP_MAX_TOKENS)
   \<and> (\<exists>i out. fst (convert_streaming With_Cancellation no_json (Some False) sample_request
          ''req-1'' Map.empty [Yields False (Data (finish_chunk ''length''))]) =
        [EVENT_MESSAGE_START ''claude-3-haiku'', EVENT_CONTENT_BLOCK_START 0 CONTENT_TEXT,
         EVENT_PING, EVENT_CONTENT_BLOCK_STOP 0,
         EVENT_MESSAGE_DELTA STOP_MAX_TOKENS i out, EVENT_MESSAGE_STOP])"
proof -
  note T = finish_reason_same_table
    [of "''length''" "''function''" no_json "Some False" "finish_response ''length''"
        sample_request
        With_Cancellation "finish_chunk ''length''" initial_state "''req-1''"
        "[Yields False (Data (finish_chunk ''length''))]" Map.empty]
  note T4 = T [THEN conjunct2, THEN conjunct2, THEN conjunct2, THEN conjunct1, rule_format]
  note T5 = T [THEN conjunct2, THEN conjunct2, THEN conjunct2, THEN conjunct2,
      THEN conjunct1, rule_format]
  note T6 = T [THEN conjunct2, THEN conjunct2, THEN conjunct2, THEN conjunct2,
      THEN conjunct2, THEN conjunct1, rule_format]
  note T7 = T [THEN conjunct2, THEN conjunct2, THEN conjunct2, THEN conjunct2,
      THEN conjunct2, THEN conjunct2]
  obtain r where r: "convert_openai_to_claude_response ''function'' no_json (Some False)
          (finish_response ''length'') sample_request = Inr r"
    by (simp add: convert_openai_to_claude_response_def finish_response_def Let_def)
  have rc: "result_choices (finish_response ''length'') =
      [\<lparr>message = no_message, delta = no_delta, finish_reason = Val ''length''\<rparr>]"
    by (simp add: finish_response_def)
  have "stop_reason r = spec_finish_table ''length''"
    by (rule T4 [where ch = "\<lparr>message = no_message, delta = no_delta,
        finish_reason = Val ''length''\<rparr>" and others = "[]"]) (simp add: r rc)
  with T7 have a: "stop_reason r = STOP_MAX_TOKENS"
    by simp
  obtain es st' where p: "process_line With_Cancellation no_json (Data (finish_chunk ''length''))
          initial_state = (es, Break st')"
    by (simp add: process_chunk_def process_choice_def finish_chunk_def no_delta_def
        update_usage_def get_opt_def Let_def)
  have cc: "choices (finish_chunk ''length'') =
      [\<lparr>message = no_message, delta = no_delta, finish_reason = Val ''length''\<rparr>]"
    by (simp add: finish_chunk_def)
  have "final_stop_reason st' = spec_finish_table ''length''"
    using T5 [where es = es and st' = st' and ch = "\<lparr>message = no_message, delta = no_delta,
        finish_reason = Val ''length''\<rparr>" and others = "[]"] p cc
    by simp
  with T7 have b: "final_stop_reason st' = STOP_MAX_TOKENS"
    by simp
  have l: "run_loop With_Cancellation no_json ''req-1''
      [Yields False (Data (finish_chunk ''length''))] initial_state Map.empty =
      (es, Loop_Done st', Map.empty)"
    using p by simp
  have es: "es = []" and tc: "current_tool_calls st' = []"
    using p
    by (auto simp: process_chunk_def process_choice_def finish_chunk_def no_delta_def
        update_usage_def get_opt_def Let_def initial_state_def)
  have "\<exists>i out.
       fst (convert_streaming With_Cancellation no_json (Some False) sample_request ''req-1''
          Map.empty [Yields False (Data (finish_chunk ''length''))]) =
       opening_events sample_request @ es @ [EVENT_CONTENT_BLOCK_STOP text_block_index]
         @ tool_stops (current_tool_calls st')
         @ [EVENT_MESSAGE_DELTA (final_stop_reason st') i out, EVENT_MESSAGE_STOP]"
    using T6 [where es = es and st' = st' and reg' = Map.empty and b = False] l
    by simp
  then obtain i out where
    "fst (convert_streaming With_Cancellation no_json (Some False) sample_request ''req-1''
          Map.empty [Yields False (Data (finish_chunk ''length''))]) =
       opening_events sample_request @ es @ [EVENT_CONTENT_BLOCK_STOP text_block_index]
         @ tool_stops (current_tool_calls st')
         @ [EVENT_MESSAGE_DELTA (final_stop_reason st') i out, EVENT_MESSAGE_STOP]"
    by blast
  with es tc b have c: "fst (convert_streaming With_Cancellation no_json (Some False)
          sample_request ''req-1''
          Map.empty [Yields False (Data (finish_chunk ''length''))]) =
        [EVENT_MESSAGE_START ''claude-3-haiku'', EVENT_CONTENT_BLOCK_START 0 CONTENT_TEXT,
         EVENT_PING, EVENT_CONTENT_BLOCK_STOP 0,
         EVENT_MESSAGE_DELTA STOP_MAX_TOKENS i out, EVENT_MESSAGE_STOP]"
    by (simp add: opening_events_def sample_request_def text_block_index_def tool_stops_def)
  from r a p b c show ?thesis by blast
qed

section \<open>Evaluating the double arithmetic\<close>

lemma bit_length_0: "bit_length 0 = 0"
  by (simp add: bit_length.simps)

lemma bit_length_pos: "0 < n \<Longrightarrow> bit_length n = Suc (bit_length (n div 2))"
  by (subst bit_length.simps) simp

lemma literal_0_7_value: "literal_0_7 = Double 6305039478318694 (-53)"
  unfolding literal_0_7_def float_quot_def
  apply (simp add: bit_length_0 bit_length_pos)
  apply (simp add: round_half_even_div_def Let_def)
  done

lemma literal_0_1_value: "literal_0_1 = Double 7205759403792794 (-56)"
  unfolding literal_0_1_def float_quot_def
  apply (simp add: bit_length_0 bit_length_pos)
  apply (simp add: round_half_even_div_def Let_def)
  done

lemma CHINESE_value: "CHINESE_CHAR_PER_TOKEN = Double 5404319552844595 (-52)"
  unfolding CHINESE_CHAR_PER_TOKEN_def float_quot_def
  apply (simp add: bit_length_0 bit_length_pos)
  apply (simp add: round_half_even_div_def Let_def)
  done

lemma MIXED_value: "MIXED_CHAR_PER_TOKEN = Double 5629499534213120 (-51)"
  unfolding MIXED_CHAR_PER_TOKEN_def float_quot_def
  apply (simp add: bit_length_0 bit_length_pos)
  apply (simp add: round_half_even_div_def Let_def)
  done

lemma ENGLISH_value: "ENGLISH_CHAR_PER_TOKEN = Double 4503599627370496 (-50)"
  unfolding ENGLISH_CHAR_PER_TOKEN_def float_quot_def
  apply (simp add: bit_length_0 bit_length_pos)
  apply (simp add: round_half_even_div_def Let_def)
  done

lemma estimate_counts_0_4: "estimate_counts 0 4 = 1"
proof -
  have "float_truediv (float_of_nat 4) ENGLISH_CHAR_PER_TOKEN = Double 4503599627370496 (-52)"
    unfolding ENGLISH_value float_of_nat_def float_quot_def
    apply (simp add: bit_length_0 bit_length_pos)
    apply (simp add: round_half_even_div_def Let_def float_quot_def bit_length_0 bit_length_pos)
    done
  then show ?thesis
    unfolding estimate_counts_def
    by (simp add: float_quot_def literal_0_7_value literal_0_1_value int_of_float_def)
qed

lemma sample_request_estimate: "estimate_input_tokens sample_request = 10"
proof -
  have c: "length (filter is_cjk [116, 101, 115, 116]) = 0" by (simp add: is_cjk_def)
  have l: "length [116, 101, 115, 116 :: nat] = 4" by simp
  have "estimate_content [116, 101, 115, 116] = 1"
    unfolding estimate_content_def by (simp only: c l estimate_counts_0_4)
  then show ?thesis
    by (simp add: estimate_input_tokens_def estimate_request_input_tokens_def sample_request_def
        estimate_messages_tokens_def estimate_text_tokens_def)
qed

text \<open>
  C7, as amended. A run reaches the closing sequence when its loop ends at the end of
  the chunk sequence, at a [DONE] line, at a finish reason or at a client disconnect,
  and not by an error event or an exception. On such a run, when the configuration
  flag reads as enabled, the message_delta reports the running totals, unless both are
  still zero when the loop ends: then, and only then, the input count is the
  TokenEstimator's estimate of the original request and the output count is the
  smaller of floor(max_tokens / 4) and 50. When the flag reads as disabled the
  message_delta reports the running totals. When the configuration object has no such
  flag, the read raises after the block stops and no message_delta is sent.
\<close>

theorem fallback_estimation:
  "run_loop v jl rid stream initial_state reg = (es, Loop_Done st, reg') \<Longrightarrow>
   convert_streaming v jl (Some True) req rid reg stream =
     (opening_events req @ es
        @ [EVENT_CONTENT_BLOCK_STOP text_block_index] @ tool_stops (current_tool_calls st)
        @ [EVENT_MESSAGE_DELTA (final_stop_reason st)
             (if total_input_tokens st = 0 \<and> total_output_tokens st = 0
              then estimate_request_input_tokens req else total_input_tokens st)
             (if total_input_tokens st = 0 \<and> total_output_tokens st = 0
              then min \<lfloor>(of_int (max_tokens req) :: rat) / 4\<rfloor> 50 else total_output_tokens st),
           EVENT_MESSAGE_STOP],
      Exhausted, reg')
   \<and> convert_streaming v jl (Some False) req rid reg stream =
     (opening_events req @ es
        @ [EVENT_CONTENT_BLOCK_STOP text_block_index] @ tool_stops (current_tool_calls st)
        @ [EVENT_MESSAGE_DELTA (final_stop_reason st) (total_input_tokens st)
             (total_output_tokens st),
           EVENT_MESSAGE_STOP],
      Exhausted, reg')
   \<and> convert_streaming v jl None req rid reg stream =
     (opening_events req @ es
        @ [EVENT_CONTENT_BLOCK_STOP text_block_index] @ tool_stops (current_tool_calls st),
      Propagated no_attribute_error, reg')"
proof -
  assume run: "run_loop v jl rid stream initial_state reg = (es, Loop_Done st, reg')"
  have fl: "\<lfloor>(of_int (max_tokens req) :: rat) / 4\<rfloor> = max_tokens req div 4"
    using floor_divide_of_int_eq [of "max_tokens req" 4, where ?'a = rat] by simp
  show ?thesis
    using run
    by (simp add: convert_streaming_def closing_events_def final_usage_def Let_def fl
        estimate_input_tokens_def)
qed

theorem fallback_estimation_witness:
  "convert_streaming With_Cancellation no_json (Some True) sample_request ''req-1'' Map.empty
     [Yields False (Data (finish_chunk ''stop''))] =
     ([EVENT_MESSAGE_START ''claude-3-haiku'', EVENT_CONTENT_BLOCK_START 0 CONTENT_TEXT,
       EVENT_PING, EVENT_CONTENT_BLOCK_STOP 0,
       EVENT_MESSAGE_DELTA STOP_END_TURN 10 25, EVENT_MESSAGE_STOP],
      Exhausted, Map.empty)
   \<and> convert_streaming With_Cancellation no_json None sample_request ''req-1'' Map.empty
     [Yields False (Data (finish_chunk ''stop''))] =
     ([EVENT_MESSAGE_START ''claude-3-haiku'', EVENT_CONTENT_BLOCK_START 0 CONTENT_TEXT,
       EVENT_PING, EVENT_CONTENT_BLOCK_STOP 0],
      Propagated no_attribute_error, Map.empty)"
proof -
  have run: "run_loop With_Cancellation no_json ''req-1''
      [Yields False (Data (finish_chunk ''stop''))] initial_state Map.empty =
      ([], Loop_Done (initial_state\<lparr>final_stop_reason := STOP_END_TURN\<rparr>), Map.empty)"
    by (simp add: process_chunk_def process_choice_def finish_chunk_def no_delta_def
        update_usage_def get_opt_def Let_def stream_stop_reason_def initial_state_def)
  have e: "estimate_request_input_tokens sample_request = 10"
    using sample_request_estimate by (simp add: estimate_input_tokens_def)
  have m: "max_tokens sample_request = 100" by (simp add: sample_request_def)
  have o: "opening_events sample_request =
      [EVENT_MESSAGE_START ''claude-3-haiku'', EVENT_CONTENT_BLOCK_START 0 CONTENT_TEXT,
       EVENT_PING]"
    by (simp add: opening_events_def sample_request_def)
  show ?thesis
    using fallback_estimation [OF run, of sample_request]
    by (simp add: e m o initial_state_def tool_stops_def text_block_index_def)
qed

theorem error_run_reports_no_estimate:
  "convert_streaming With_Cancellation no_json (Some True) sample_request ''req-1'' Map.empty
     [Yields False (error_line ''timeout_error'' ''Timeout waiting for streaming chunk'')] =
     ([EVENT_MESSAGE_START ''claude-3-haiku'', EVENT_CONTENT_BLOCK_START 0 CONTENT_TEXT,
       EVENT_PING, EVENT_ERROR ''timeout_error'' ''Timeout waiting for streaming chunk''],
      Exhausted, Map.empty)
   \<and> convert_streaming Basic no_json (Some True) sample_request [] Map.empty
     [Raises (Other_Exception ''Connection reset'')] =
     ([EVENT_MESSAGE_START ''claude-3-haiku'', EVENT_CONTENT_BLOCK_START 0 CONTENT_TEXT,
       EVENT_PING, EVENT_ERROR ''api_error'' ''Streaming error: Connection reset''],
      Exhausted, Map.empty)"
  by (simp add: convert_streaming_def process_chunk_def error_line_def inline_error_event_def
      opening_events_def sample_request_def api_error_event_def)

text \<open>
  C5. For a backend result with at least one choice, the content list the non-streaming
  translator builds from the first choice is never empty: when the message has no
  truthy text and no tool call of the function type, it is exactly one empty text
  block. Whenever the translator returns, that list is the content of its output. It
  returns when the usage key does not hold null and the read of the configuration flag
  gives a value; when that read raises, the translator raises after the list is built.
\<close>

theorem content_never_empty:
  "result_choices resp = ch # others \<Longrightarrow>
   build_content_blocks tf jl (message ch) \<noteq> []
   \<and> (\<not> truthy (text_content (message ch))
        \<and> filter (\<lambda>tc. call_type tc = Some tf) (message_tool_calls (message ch)) = []
      \<longrightarrow> build_content_blocks tf jl (message ch) = [Text_Block []])
   \<and> (\<forall>r. convert_openai_to_claude_response tf jl en resp req = Inr r
        \<longrightarrow> claude_content r = build_content_blocks tf jl (message ch) \<and> claude_content r \<noteq> [])
   \<and> (result_usage resp \<noteq> Null \<and> en \<noteq> None
        \<longrightarrow> (\<exists>r. convert_openai_to_claude_response tf jl en resp req = Inr r))
   \<and> (result_usage resp \<noteq> Null \<and> en = None
        \<longrightarrow> convert_openai_to_claude_response tf jl en resp req = Inl no_attribute_error)"
proof -
  assume rc: "result_choices resp = ch # others"
  have ne: "build_content_blocks tf jl (message ch) \<noteq> []"
    by (simp add: build_content_blocks_def Let_def)
  have em: "build_content_blocks tf jl (message ch) = [Text_Block []]"
    if "\<not> truthy (text_content (message ch))"
      and "filter (\<lambda>tc. call_type tc = Some tf) (message_tool_calls (message ch)) = []"
    using that by (cases "text_content (message ch)") (simp_all add: build_content_blocks_def)
  have co: "claude_content r = build_content_blocks tf jl (message ch)"
    if "convert_openai_to_claude_response tf jl en resp req = Inr r" for r
    using that rc
    by (auto simp: convert_openai_to_claude_response_def Let_def
        split: field.splits option.splits)
  have rt: "\<exists>r. convert_openai_to_claude_response tf jl en resp req = Inr r"
    if "result_usage resp \<noteq> Null \<and> en \<noteq> None"
    using that rc
    by (cases "result_usage resp")
      (auto simp: convert_openai_to_claude_response_def Let_def)
  have rs: "convert_openai_to_claude_response tf jl en resp req = Inl no_attribute_error"
    if "result_usage resp \<noteq> Null \<and> en = None"
    using that rc
    by (cases "result_usage resp")
      (auto simp: convert_openai_to_claude_response_def Let_def)
  from ne em co rt rs show ?thesis by metis
qed

theorem content_never_empty_witness:
  "(\<exists>r. convert_openai_to_claude_response ''function'' no_json (Some False)
          (text_response None) sample_request = Inr r
        \<and> claude_content r = [Text_Block []])
   \<and> (\<exists>r. convert_openai_to_claude_response ''function'' no_json (Some False)
          (text_response (Some [])) sample_request = Inr r
        \<and> claude_content r = [Text_Block []])
   \<and> build_content_blocks ''function'' no_json
         \<lparr>text_content = None, message_tool_calls = []\<rparr> = [Text_Block []]"
proof -
  have c: "result_choices (text_response t) =
      [\<lparr>message = \<lparr>text_content = t, message_tool_calls = []\<rparr>, delta = no_delta,
        finish_reason = Val ''stop''\<rparr>]" for t
    by (simp add: text_response_def)
  have u: "result_usage (text_response t) \<noteq> Null" for t
    by (simp add: text_response_def)
  note T = content_never_empty
    [OF c, where tf = "''function''" and jl = no_json and en = "Some False"
      and req = sample_request]
  from T [where t1 = None] u [of None] obtain r1 where
    r1: "convert_openai_to_claude_response ''function'' no_json (Some False)
          (text_response None) sample_request = Inr r1"
    by blast
  from T [of None] r1 have b1: "claude_content r1 = [Text_Block []]"
    by simp
  from T [of "Some []"] u [of "Some []"] obtain r2 where
    r2: "convert_openai_to_claude_response ''function'' no_json (Some False)
          (text_response (Some [])) sample_request = Inr r2"
    by blast
  from T [of "Some []"] r2 have b2: "claude_content r2 = [Text_Block []]"
    by simp
  from T [of None] have b3: "build_content_blocks ''function'' no_json
         \<lparr>text_content = None, message_tool_calls = []\<rparr> = [Text_Block []]"
    by simp
  from r1 b1 r2 b2 b3 show ?thesis by blast
qed

section \<open>Usage extraction\<close>

lemma update_usage_last_positive:
  "total_input_tokens
     (update_usage (Some \<lparr>prompt_tokens = p, completion_tokens = c, input_tokens = i,
                          output_tokens = out\<rparr>) st) =
     (case p of Some n \<Rightarrow> if 0 < n then n else total_input_tokens st
      | None \<Rightarrow> total_input_tokens st)
   \<and> total_output_tokens
     (update_usage (Some \<lparr>prompt_tokens = p, completion_tokens = c, input_tokens = i,
                          output_tokens = out\<rparr>) st) =
     (case c of Some n \<Rightarrow> if 0 < n then n else total_output_tokens st
      | None \<Rightarrow> total_output_tokens st)"
  by (simp add: update_usage_def Let_def split: option.splits)

text \<open>
  C3. A chunk with a usage object and an empty choices list is skipped before its usage
  is read: the loop ends with the totals at (0,0), in both translators, and the
  message_delta (sent when the read of the configuration flag gives a value) reports
  0 and 0. On chunks that carry a choice, the running totals follow
  last-positive-wins: snapshots (5,0), (5,10), (0,0) end with (5,10).
\<close>

theorem usage_without_choices_is_dropped:
  "run_loop With_Cancellation no_json ''req-1'' [Yields False (Data (usage_chunk [] 5 10))]
     initial_state Map.empty = ([], Loop_Done initial_state, Map.empty)
   \<and> run_loop Basic no_json ''req-1'' [Yields False (Data (usage_chunk [] 5 10))]
     initial_state Map.empty = ([], Loop_Done initial_state, Map.empty)
   \<and> total_input_tokens initial_state = 0 \<and> total_output_tokens initial_state = 0
   \<and> run_loop With_Cancellation no_json ''req-1''
     [Yields False (Data (usage_chunk [plain_choice] 5 0)),
      Yields False (Data (usage_chunk [plain_choice] 5 10)),
      Yields False (Data (usage_chunk [plain_choice] 0 0))] initial_state Map.empty =
     ([], Loop_Done (initial_state\<lparr>total_input_tokens := 5, total_output_tokens := 10\<rparr>),
      Map.empty)
   \<and> convert_streaming With_Cancellation no_json (Some False) sample_request ''req-1''
     Map.empty [Yields False (Data (usage_chunk [] 5 10))] =
     ([EVENT_MESSAGE_START ''claude-3-haiku'', EVENT_CONTENT_BLOCK_START 0 CONTENT_TEXT,
       EVENT_PING, EVENT_CONTENT_BLOCK_STOP 0,
       EVENT_MESSAGE_DELTA STOP_END_TURN 0 0, EVENT_MESSAGE_STOP],
      Exhausted, Map.empty)
   \<and> convert_streaming Basic no_json (Some False) sample_request ''req-1'' Map.empty
     [Yields False (Data (usage_chunk [] 5 10))] =
     ([EVENT_MESSAGE_START ''claude-3-haiku'', EVENT_CONTENT_BLOCK_START 0 CONTENT_TEXT,
       EVENT_PING, EVENT_CONTENT_BLOCK_STOP 0,
       EVENT_MESSAGE_DELTA STOP_END_TURN 0 0, EVENT_MESSAGE_STOP],
      Exhausted, Map.empty)
   \<and> convert_streaming With_Cancellation no_json (Some False) sample_request ''req-1''
     Map.empty
     [Yields False (Data (usage_chunk [plain_choice] 5 0)),
      Yields False (Data (usage_chunk [plain_choice] 5 10)),
      Yields False (Data (usage_chunk [plain_choice] 0 0))] =
     ([EVENT_MESSAGE_START ''claude-3-haiku'', EVENT_CONTENT_BLOCK_START 0 CONTENT_TEXT,
       EVENT_PING, EVENT_CONTENT_BLOCK_STOP 0,
       EVENT_MESSAGE_DELTA STOP_END_TURN 5 10, EVENT_MESSAGE_STOP],
      Exhausted, Map.empty)"
  by (simp add: convert_streaming_def process_chunk_def process_choice_def usage_chunk_def
      plain_choice_def no_delta_def update_usage_def get_opt_def Let_def initial_state_def
      opening_events_def closing_events_def final_usage_def tool_stops_def
      text_block_index_def sample_request_def)

section \<open>The registry\<close>

lemma cleanup_removes: "request_id \<noteq> [] \<Longrightarrow> request_id \<notin> dom (cleanup request_id reg)"
  by (auto simp: cleanup_def)

text \<open>
  C9. A call with a request id registers an entry for it at its start. When
  \<open>create_chat_completion\<close> is over (with a result, a classified failure or a
  cancellation), and when the generator of \<open>create_chat_completion_stream\<close> has ended
  (exhausted after the stream, an error line or a timeout, closed by its consumer, or
  cancelled), the registry holds no entry for that id, whatever other tasks did to the
  registry in between. A generator left suspended at a yield has not ended.
\<close>

theorem registry_entry_removed:
  "request_id \<noteq> [] \<Longrightarrow>
   register request_id reg request_id = Some False
   \<and> request_id \<notin> dom (snd (create_chat_completion classify request_id ops outcome reg))
   \<and> (\<forall>ls st reg'.
         create_chat_completion_stream request_id ops created script at_done reg = (ls, st, reg')
         \<and> st \<noteq> Gen_Suspended
         \<longrightarrow> request_id \<notin> dom reg')"
proof -
  assume rid: "request_id \<noteq> []"
  have a: "register request_id reg request_id = Some False"
    using rid by (simp add: register_def)
  have b: "request_id \<notin> dom (snd (create_chat_completion classify request_id ops outcome reg))"
    using cleanup_removes [OF rid] by (simp add: create_chat_completion_def Let_def)
  have c: "request_id \<notin> dom reg'"
    if "create_chat_completion_stream request_id ops created script at_done reg = (ls, st, reg')"
      and "st \<noteq> Gen_Suspended" for ls st reg'
  proof -
    obtain ls0 e reg2 where body:
      "(case created of
          Create_Fails m act \<Rightarrow>
            ([error_line ''connection_error'' (''Failed to start streaming: '' @ m)],
             after_yield act, fold apply_op ops (register request_id reg))
        | Create_Cancelled \<Rightarrow> ([], Body_Cancelled, fold apply_op ops (register request_id reg))
        | Created \<Rightarrow>
            stream_loop request_id script at_done (fold apply_op ops (register request_id reg)))
       = (ls0, e, reg2)"
      by (metis prod_cases3)
    from that(1) body have st: "st = status_of e"
      and r: "reg' = (if e = Body_Suspended then reg2 else cleanup request_id reg2)"
      by (simp_all add: create_chat_completion_stream_def Let_def)
    from st that(2) have "e \<noteq> Body_Suspended" by (cases e) simp_all
    with r cleanup_removes [OF rid] show ?thesis by simp
  qed
  from a b c show ?thesis by blast
qed

theorem registry_entry_removed_witness:
  "''req-1'' \<notin> dom (snd (create_chat_completion (\<lambda>m. m) ''req-1'' [Op_Cancel ''req-1'']
       (Cancel_First :: unit backend_outcome) Map.empty))
   \<and> fst (snd (create_chat_completion_stream ''req-1'' [] Created
       [\<lparr>env_ops = [], fetched = Next_Chunk (Some (finish_chunk ''stop'')), at_yield = Resume\<rparr>]
       Resume Map.empty)) = Gen_Exhausted
   \<and> ''req-1'' \<notin> dom (snd (snd (create_chat_completion_stream ''req-1'' [] Created
       [\<lparr>env_ops = [], fetched = Next_Chunk (Some (finish_chunk ''stop'')), at_yield = Resume\<rparr>]
       Resume Map.empty)))"
proof -
  have ne: "''req-1'' \<noteq> []" by simp
  note T = registry_entry_removed [OF ne]
  obtain ls st reg' where g: "create_chat_completion_stream ''req-1'' [] Created
       [\<lparr>env_ops = [], fetched = Next_Chunk (Some (finish_chunk ''stop'')), at_yield = Resume\<rparr>]
       Resume Map.empty = (ls, st, reg')"
    by (metis prod_cases3)
  have st: "st = Gen_Exhausted"
    using g
    by (simp add: create_chat_completion_stream_def register_def is_set_def ends_stream_def
        finish_chunk_def get_opt_def Let_def)
  from T g st have b: "''req-1'' \<notin> dom reg'" by blast
  from T have a: "''req-1'' \<notin> dom (snd (create_chat_completion (\<lambda>m. m) ''req-1''
       [Op_Cancel ''req-1''] (Cancel_First :: unit backend_outcome) Map.empty))"
    by blast
  from a b g st show ?thesis by simp
qed

section \<open>Blocks opened and closed\<close>

lemma started_blocks_append [simp]:
  "started_blocks (xs @ ys) = started_blocks xs @ started_blocks ys"
  by (simp add: started_blocks_def map_filter_def)

lemma stopped_blocks_append [simp]:
  "stopped_blocks (xs @ ys) = stopped_blocks xs @ stopped_blocks ys"
  by (simp add: stopped_blocks_def map_filter_def)

lemma started_blocks_Nil [simp]: "started_blocks [] = []"
  by (simp add: started_blocks_def map_filter_def)

lemma stopped_blocks_Nil [simp]: "stopped_blocks [] = []"
  by (simp add: stopped_blocks_def map_filter_def)

lemma started_blocks_Cons:
  "started_blocks (e # es) =
     (case start_index e of None \<Rightarrow> started_blocks es | Some i \<Rightarrow> i # started_blocks es)"
  by (simp add: started_blocks_def map_filter_def split: option.splits)

lemma stopped_blocks_Cons:
  "stopped_blocks (e # es) =
     (case stop_index e of None \<Rightarrow> stopped_blocks es | Some i \<Rightarrow> i # stopped_blocks es)"
  by (simp add: stopped_blocks_def map_filter_def split: option.splits)

lemma block_events_no_stop: "list_all is_block_event es \<Longrightarrow> stopped_blocks es = []"
  by (induction es) (auto simp: stopped_blocks_Cons elim: is_block_event.elims)

lemma block_events_no_error: "list_all is_block_event es \<Longrightarrow> filter is_error es = []"
  by (induction es) (auto elim: is_block_event.elims)

lemma block_events_no_closing: "list_all is_block_event es \<Longrightarrow> filter is_closing es = []"
  by (induction es) (auto elim: is_block_event.elims)

lemma step_ok_refl: "step_ok c calls [] c calls"
  by (simp add: step_ok_def)

lemma step_ok_trans:
  "step_ok c calls es c' calls' \<Longrightarrow> step_ok c' calls' es' c'' calls'' \<Longrightarrow>
   step_ok c calls (es @ es') c'' calls''"
proof -
  assume a: "step_ok c calls es c' calls'" and b: "step_ok c' calls' es' c'' calls''"
  from a b have le: "c \<le> c'" "c' \<le> c''" by (simp_all add: step_ok_def)
  then have u: "[Suc c..<Suc c'] @ [Suc c'..<Suc c''] = [Suc c..<Suc c'']"
    by (metis Suc_le_mono upt_add_eq_append le_add_diff_inverse)
  from a b le u show ?thesis
    by (auto simp: step_ok_def simp flip: mset_append)
qed

lemma step_ok_deltas:
  "list_all is_block_event es \<Longrightarrow> started_blocks es = [] \<Longrightarrow> step_ok c calls es c calls"
  by (simp add: step_ok_def)

lemma started_indices_update:
  "mset (started_indices (AList.update k v al)) + mset (started_index (get_tool_call al k)) =
   mset (started_indices al) + mset (started_index v)"
proof (induction al)
  case Nil
  show ?case
    by (simp add: started_indices_def get_tool_call_def started_index_def new_tool_call_def)
next
  case (Cons p al)
  obtain k' x where p: "p = (k', x)" by (cases p)
  show ?case
  proof (cases "k' = k")
    case True
    with p show ?thesis by (simp add: started_indices_def get_tool_call_def)
  next
    case False
    with p Cons.IH show ?thesis
      by (simp add: started_indices_def get_tool_call_def)
  qed
qed

lemma merge_id_name_index [simp]:
  "started_index (merge_id_name tcd fd tc) = started_index tc"
  "started (merge_id_name tcd fd tc) = started tc"
  by (simp_all add: merge_id_name_def started_index_def Let_def)

lemma handle_arguments_ok:
  "handle_arguments v jl fd tc = (es, Inr tc') \<Longrightarrow>
   started_index tc' = started_index tc \<and> list_all is_block_event es \<and> started_blocks es = []"
  by (auto simp: handle_arguments_def Let_def started_index_def started_blocks_Cons
      split: field.splits if_splits option.splits)

lemma start_block_ok:
  "start_block c tc = (es, c', tc') \<Longrightarrow>
   c \<le> c' \<and> started_blocks es = [Suc c..<Suc c'] \<and> list_all is_block_event es
   \<and> mset (started_index tc') = mset (started_index tc) + mset [Suc c..<Suc c']"
  by (auto simp: start_block_def Let_def started_index_def started_blocks_Cons
      text_block_index_def split: if_splits)

lemma apply_function_data_ok:
  "apply_function_data v jl tcd fd c calls = (es, Inr (c', calls')) \<Longrightarrow>
   step_ok c calls es c' calls'"
proof -
  assume a: "apply_function_data v jl tcd fd c calls = (es, Inr (c', calls'))"
  define k where "k = (case tc_index tcd of None \<Rightarrow> 0 | Some i \<Rightarrow> i)"
  define tc where "tc = get_tool_call calls k"
  obtain es1 c1 tc2 where sb: "start_block c (merge_id_name tcd fd tc) = (es1, c1, tc2)"
    by (metis prod_cases3)
  obtain es2 r where ha: "handle_arguments v jl fd tc2 = (es2, r)"
    by (cases "handle_arguments v jl fd tc2")
  from a sb ha obtain tc3 where r: "r = Inr tc3" and es: "es = es1 @ es2" and c1: "c1 = c'"
    and calls': "calls' = AList.update k tc3 calls"
    by (cases r) (auto simp: apply_function_data_def Let_def k_def tc_def)
  note s = start_block_ok [OF sb]
  note h = handle_arguments_ok [OF ha [unfolded r]]
  have "mset (started_indices calls') + mset (started_index tc) =
        mset (started_indices calls) + mset (started_index tc3)"
    unfolding calls' tc_def by (rule started_indices_update)
  with s h have "mset (started_indices calls') =
        mset (started_indices calls) + mset [Suc c..<Suc c1]"
    by simp
  with s h es c1 show ?thesis
    by (simp add: step_ok_def)
qed

lemma handle_tc_delta_ok:
  "handle_tc_delta v jl tcd c calls = (es, Inr (c', calls')) \<Longrightarrow> step_ok c calls es c' calls'"
  by (auto simp: handle_tc_delta_def split: field.splits dest: apply_function_data_ok)

lemma handle_tool_calls_ok:
  "handle_tool_calls v jl tcs c calls = (es, Inr (c', calls')) \<Longrightarrow> step_ok c calls es c' calls'"
proof (induction tcs arbitrary: c calls es)
  case Nil
  then show ?case by (simp add: step_ok_refl)
next
  case (Cons tcd tcs)
  obtain es1 r1 where h: "handle_tc_delta v jl tcd c calls = (es1, r1)"
    by (cases "handle_tc_delta v jl tcd c calls")
  from Cons.prems h obtain c1 calls1 where r1: "r1 = Inr (c1, calls1)"
    by (cases r1) auto
  obtain es2 r2 where t: "handle_tool_calls v jl tcs c1 calls1 = (es2, r2)"
    by (cases "handle_tool_calls v jl tcs c1 calls1")
  from Cons.prems h r1 t have r2: "r2 = Inr (c', calls')" and es: "es = es1 @ es2"
    by auto
  from handle_tc_delta_ok [OF h [unfolded r1]] Cons.IH [OF t [unfolded r2]] es
  show ?case by (auto intro: step_ok_trans)
qed

lemma update_usage_tools [simp]:
  "tool_block_counter (update_usage u st) = tool_block_counter st"
  "current_tool_calls (update_usage u st) = current_tool_calls st"
  by (simp_all add: update_usage_def Let_def split: option.splits)

lemma process_choice_ok:
  "process_choice v jl ch st = (es, s) \<Longrightarrow> s = Continue st' \<or> s = Break st' \<Longrightarrow>
   state_step st es st'"
proof -
  assume a: "process_choice v jl ch st = (es, s)" and s: "s = Continue st' \<or> s = Break st'"
  define te where "te = (if truthy (delta_content (delta ch))
             then [EVENT_CONTENT_BLOCK_DELTA (Some text_block_index)
                     (DELTA_TEXT (case delta_content (delta ch) of Some t \<Rightarrow> t | None \<Rightarrow> []))]
             else [])"
  define tr where "tr = (case tool_calls (delta ch) of
               Absent \<Rightarrow> ([], Inr (tool_block_counter st, current_tool_calls st))
             | Null \<Rightarrow>
                 if v = Basic then ([], Inl (TypeError ''NoneType object is not iterable''))
                 else ([], Inr (tool_block_counter st, current_tool_calls st))
             | Val tcs \<Rightarrow>
                 handle_tool_calls v jl tcs (tool_block_counter st) (current_tool_calls st))"
  obtain tev r where tr_eq: "tr = (tev, r)" by (cases tr)
  from a s tr_eq obtain c' calls' where r: "r = Inr (c', calls')"
    by (cases r) (auto simp: process_choice_def Let_def tr_def [symmetric])
  have t1: "step_ok (tool_block_counter st) (current_tool_calls st) te
      (tool_block_counter st) (current_tool_calls st)"
    by (rule step_ok_deltas) (simp_all add: te_def started_blocks_Cons)
  have t2: "step_ok (tool_block_counter st) (current_tool_calls st) tev c' calls'"
    using tr_eq r
    by (auto simp: tr_def step_ok_refl split: field.splits if_splits dest: handle_tool_calls_ok)
  from a s tr_eq r have es: "es = te @ tev" and c: "tool_block_counter st' = c'"
    and cs: "current_tool_calls st' = calls'"
    by (auto simp: process_choice_def Let_def tr_def [symmetric] te_def [symmetric]
        split: if_splits)
  from step_ok_trans [OF t1 t2] es c cs show ?thesis
    by (simp add: state_step_def)
qed

lemma process_line_ok:
  "process_line v jl l st = (es, s) \<Longrightarrow> s = Continue st' \<or> s = Break st' \<Longrightarrow>
   state_step st es st'"
proof (cases l)
  case (Data c)
  assume a: "process_line v jl l st = (es, s)" and s: "s = Continue st' \<or> s = Break st'"
  show ?thesis
  proof (cases "v = With_Cancellation \<and> chunk_error c \<noteq> None")
    case True
    with a s Data show ?thesis by (auto simp: process_chunk_def)
  next
    case False
    show ?thesis
    proof (cases "choices c")
      case Nil
      with a s Data False show ?thesis
        by (auto simp: process_chunk_def state_step_def step_ok_refl)
    next
      case (Cons ch others)
      with a Data False have "process_choice v jl ch (update_usage (usage c) st) = (es, s)"
        by (auto simp: process_chunk_def)
      from process_choice_ok [OF this s] show ?thesis
        by (simp add: state_step_def)
    qed
  qed
qed (auto simp: state_step_def step_ok_refl)

lemma state_step_trans:
  "state_step st es st' \<Longrightarrow> state_step st' es' st'' \<Longrightarrow> state_step st (es @ es') st''"
  unfolding state_step_def by (rule step_ok_trans)

lemma passes_ok:
  "passes v jl pre st = Some (es, st') \<Longrightarrow> state_step st es st'"
proof (induction pre arbitrary: st es)
  case Nil
  then show ?case by (simp add: state_step_def step_ok_refl)
next
  case (Cons item pre)
  show ?case
  proof (cases item)
    case (Raises e)
    with Cons.prems show ?thesis by simp
  next
    case (Yields d l)
    from Cons.prems Yields have nd: "\<not> (v = With_Cancellation \<and> d)"
      by (auto split: if_splits)
    obtain es1 s1 where pl: "process_line v jl l st = (es1, s1)"
      by (cases "process_line v jl l st")
    from Cons.prems Yields nd pl obtain st1 where s1: "s1 = Continue st1"
      by (cases s1) (auto split: if_splits)
    from Cons.prems Yields nd pl s1 obtain es2 where
      p2: "passes v jl pre st1 = Some (es2, st')" and es: "es = es1 @ es2"
      by (auto split: if_splits option.splits)
    from process_line_ok [OF pl, of st1] s1 have "state_step st es1 st1" by simp
    from state_step_trans [OF this Cons.IH [OF p2]] es show ?thesis by simp
  qed
qed

lemma run_loop_ok:
  "run_loop v jl rid stream st reg = (es, Loop_Done st', reg') \<Longrightarrow> state_step st es st'"
proof (induction stream arbitrary: st es)
  case Nil
  then show ?case by (simp add: state_step_def step_ok_refl)
next
  case (Cons item stream)
  show ?case
  proof (cases item)
    case (Raises e)
    with Cons.prems show ?thesis by simp
  next
    case (Yields d l)
    show ?thesis
    proof (cases "v = With_Cancellation \<and> d")
      case True
      with Cons.prems Yields show ?thesis
        by (auto simp: state_step_def step_ok_refl)
    next
      case False
      obtain es1 s1 where pl: "process_line v jl l st = (es1, s1)"
        by (cases "process_line v jl l st")
      show ?thesis
      proof (cases s1)
        case (Continue st1)
        obtain es2 r2 reg2 where rl: "run_loop v jl rid stream st1 reg = (es2, r2, reg2)"
          by (metis prod_cases3)
        from Cons.prems Yields False pl Continue rl
        have es: "es = es1 @ es2" and r2: "r2 = Loop_Done st'" and r3: "reg2 = reg'"
          by auto
        from process_line_ok [OF pl, of st1] Continue have "state_step st es1 st1" by simp
        from state_step_trans [OF this Cons.IH [OF rl [unfolded r2 r3]]] es show ?thesis by simp
      next
        case (Break st1)
        with Cons.prems Yields False pl have "es = es1" "st' = st1" by auto
        with process_line_ok [OF pl, of st1] Break show ?thesis by simp
      next
        case Return
        with Cons.prems Yields False pl show ?thesis by auto
      next
        case (Raise e)
        with Cons.prems Yields False pl show ?thesis by auto
      qed
    qed
  qed
qed

lemma tool_stops_indices: "tool_stops calls = map EVENT_CONTENT_BLOCK_STOP (started_indices calls)"
  by (induction calls)
    (auto simp: tool_stops_def started_indices_def started_index_def split: option.splits)

lemma stopped_blocks_stops [simp]: "stopped_blocks (map EVENT_CONTENT_BLOCK_STOP xs) = xs"
  by (induction xs) (simp_all add: stopped_blocks_Cons)

lemma started_blocks_stops [simp]: "started_blocks (map EVENT_CONTENT_BLOCK_STOP xs) = []"
  by (induction xs) (simp_all add: started_blocks_Cons)

lemma opening_blocks [simp]:
  "started_blocks (opening_events req) = [0]"
  "stopped_blocks (opening_events req) = []"
  "filter is_error (opening_events req) = []"
  "filter is_closing (opening_events req) = []"
  by (simp_all add: opening_events_def started_blocks_Cons stopped_blocks_Cons)

lemma closing_blocks:
  "started_blocks (fst (closing_events en req st)) = []"
  "stopped_blocks (fst (closing_events en req st)) =
     0 # started_indices (current_tool_calls st)"
  "filter is_error (fst (closing_events en req st)) = []"
  by (simp_all add: closing_events_def Let_def tool_stops_indices started_blocks_Cons
      stopped_blocks_Cons text_block_index_def filter_map comp_def
      split: prod.splits sum.splits)

lemma closing_end:
  "snd (closing_events en req st) = Exhausted
   \<or> snd (closing_events en req st) = Propagated no_attribute_error"
  by (simp add: closing_events_def final_usage_def Let_def split: option.splits)

lemma initial_tools [simp]:
  "tool_block_counter initial_state = 0"
  "current_tool_calls initial_state = []"
  by (simp_all add: initial_state_def)

lemma blocks_closed_no_start: "started_blocks es = [] \<Longrightarrow> blocks_closed es"
  by (induction es) (auto simp: started_blocks_Cons split: option.splits)

lemma blocks_closed_append:
  "stopped_blocks xs = [] \<Longrightarrow> started_blocks ys = [] \<Longrightarrow>
   (\<And>i. i \<in> set (started_blocks xs) \<Longrightarrow> count_list (stopped_blocks ys) i = 1) \<Longrightarrow>
   blocks_closed (xs @ ys)"
proof (induction xs)
  case Nil
  then show ?case by (simp add: blocks_closed_no_start)
next
  case (Cons e xs)
  from Cons.prems(1) have s: "stopped_blocks xs = []"
    by (auto simp: stopped_blocks_Cons split: option.splits)
  have "blocks_closed (xs @ ys)"
    using Cons.IH [OF s Cons.prems(2)] Cons.prems(3)
    by (auto simp: started_blocks_Cons split: option.splits)
  moreover have "count_list (stopped_blocks (xs @ ys)) i = 1" if "start_index e = Some i" for i
    using Cons.prems(3) [of i] that s by (simp add: started_blocks_Cons)
  ultimately show ?case by (auto split: option.splits)
qed

lemma run_loop_returned:
  "run_loop v jl rid stream st reg = (es, Loop_Returned, reg') \<Longrightarrow> filter is_error es \<noteq> []"
proof (induction stream arbitrary: st es)
  case Nil
  then show ?case by simp
next
  case (Cons item stream)
  show ?case
  proof (cases item)
    case (Raises e)
    with Cons.prems show ?thesis by simp
  next
    case (Yields d l)
    with Cons.prems have nd: "\<not> (v = With_Cancellation \<and> d)"
      by (auto split: if_splits)
    obtain es1 s1 where pl: "process_line v jl l st = (es1, s1)"
      by (cases "process_line v jl l st")
    show ?thesis
    proof (cases s1)
      case (Continue st1)
      obtain es2 r2 reg2 where rl: "run_loop v jl rid stream st1 reg = (es2, r2, reg2)"
        by (metis prod_cases3)
      from Cons.prems Yields nd pl Continue rl
      have es: "es = es1 @ es2" and r2: "r2 = Loop_Returned" and r3: "reg2 = reg'"
        by auto
      from Cons.IH [OF rl [unfolded r2 r3]] es show ?thesis by simp
    next
      case (Break st1)
      with Cons.prems Yields nd pl show ?thesis by auto
    next
      case Return
      with Cons.prems Yields nd pl have "es = es1" by auto
      moreover from pl Return have "filter is_error es1 \<noteq> []"
        by (cases l)
          (auto simp: process_chunk_def process_choice_def inline_error_event_def Let_def
            split: if_splits option.splits list.splits prod.splits sum.splits)
      ultimately show ?thesis by simp
    next
      case (Raise e)
      with Cons.prems Yields nd pl show ?thesis by auto
    qed
  qed
qed

lemma handle_exception_error:
  "handle_exception v e = (es, Exhausted) \<Longrightarrow> filter is_error es \<noteq> []"
  by (cases "(v, e)" rule: handle_exception.cases)
    (auto simp: cancelled_event_def api_error_event_def split: if_splits)

lemma handle_exception_propagated:
  "handle_exception v e = (es, Propagated x) \<Longrightarrow> \<exists>code detail. x = HTTPException code detail"
  by (cases "(v, e)" rule: handle_exception.cases) (auto split: if_splits)

lemma count_list_upt: "count_list [0..<n] i = (if i < n then 1 else 0)"
  by (induction n) auto

text \<open>
  C1, as amended. When a translator finishes without sending an error event, and
  without raising or raising only at the read of the configuration flag that follows
  the block stops, every content_block_start it sent is followed by exactly one
  content_block_stop of the same index: the blocks started are 0 to the number of tool
  blocks, each once, and the blocks stopped are the same, each once.
\<close>

theorem blocks_closed_without_error:
  "convert_streaming v jl en req rid reg stream = (events, g, reg') \<Longrightarrow>
   g = Exhausted \<or> g = Propagated no_attribute_error \<Longrightarrow>
   filter is_error events = [] \<Longrightarrow>
   blocks_closed events
   \<and> distinct (started_blocks events)
   \<and> mset (stopped_blocks events) = mset (started_blocks events)"
proof -
  assume conv: "convert_streaming v jl en req rid reg stream = (events, g, reg')"
    and g: "g = Exhausted \<or> g = Propagated no_attribute_error"
    and ne: "filter is_error events = []"
  obtain es le r where rl: "run_loop v jl rid stream initial_state reg = (es, le, r)"
    by (metis prod_cases3)
  show ?thesis
  proof (cases le)
    case (Loop_Done st)
    from conv rl Loop_Done
    have ev: "events = (opening_events req @ es) @ fst (closing_events en req st)"
      by (auto simp: convert_streaming_def split: prod.splits)
    from run_loop_ok [OF rl [unfolded Loop_Done]]
    have sb: "started_blocks es = [Suc 0..<Suc (tool_block_counter st)]"
      and be: "list_all is_block_event es"
      and ms: "mset (started_indices (current_tool_calls st)) =
               mset [Suc 0..<Suc (tool_block_counter st)]"
      by (simp_all add: state_step_def step_ok_def started_indices_def del: upt_Suc)
    have up: "0 # [Suc 0..<Suc (tool_block_counter st)] = [0..<Suc (tool_block_counter st)]"
      by (rule upt_conv_Cons [symmetric]) simp
    have st_all: "started_blocks events = [0..<Suc (tool_block_counter st)]"
      using sb up by (simp add: ev closing_blocks del: upt_Suc)
    have sp_all: "stopped_blocks events = 0 # started_indices (current_tool_calls st)"
      using block_events_no_stop [OF be] by (simp add: ev closing_blocks)
    have m: "mset (stopped_blocks events) = mset (started_blocks events)"
      using ms by (simp add: st_all sp_all up [symmetric] del: upt_Suc)
    have cnt: "count_list (stopped_blocks (fst (closing_events en req st))) i = 1"
      if "i \<in> set (started_blocks (opening_events req @ es))" for i
    proof -
      from that sb have i: "i < Suc (tool_block_counter st)" by (auto simp del: upt_Suc)
      have "mset (stopped_blocks (fst (closing_events en req st))) =
            mset [0..<Suc (tool_block_counter st)]"
        using ms by (simp add: closing_blocks up [symmetric] del: upt_Suc)
      then have "count_list (stopped_blocks (fst (closing_events en req st))) i =
                 count_list [0..<Suc (tool_block_counter st)] i"
        by (metis count_mset)
      with i show ?thesis by (simp add: count_list_upt)
    qed
    have "blocks_closed events"
      unfolding ev
      by (rule blocks_closed_append)
        (use block_events_no_stop [OF be] cnt in \<open>simp_all add: closing_blocks\<close>)
    with st_all m show ?thesis by simp
  next
    case Loop_Returned
    from conv rl Loop_Returned have "events = opening_events req @ es"
      by (simp add: convert_streaming_def)
    with run_loop_returned [OF rl [unfolded Loop_Returned]] ne show ?thesis by simp
  next
    case (Loop_Raised e)
    obtain es' g' where he: "handle_exception v e = (es', g')"
      by (cases "handle_exception v e")
    from conv rl Loop_Raised he have ev: "events = opening_events req @ es @ es'"
      and gg: "g' = g"
      by (simp_all add: convert_streaming_def)
    from g gg handle_exception_propagated [of v e es'] he have "g' = Exhausted"
      by (auto simp: no_attribute_error_def)
    from handle_exception_error [OF he [unfolded this]] ne ev show ?thesis by simp
  qed
qed

lemmas translator_defs =
  convert_streaming_def convert_openai_streaming_to_claude_with_cancellation_def
  convert_openai_streaming_to_claude_def process_chunk_def process_choice_def
  handle_tc_delta_def apply_function_data_def merge_id_name_def start_block_def
  handle_arguments_def get_tool_call_def new_tool_call_def update_usage_def get_opt_def
  Let_def initial_state_def opening_events_def closing_events_def final_usage_def
  tool_stops_def text_block_index_def inline_error_event_def error_line_def tool_chunk_def
  first_fragment_def next_fragment_def no_delta_def no_json_def cancel_request_def
  api_error_event_def cancelled_event_def config_enable_token_estimation_def

theorem blocks_closed_without_error_witness:
  "blocks_closed (fst (convert_streaming With_Cancellation no_json
      config_enable_token_estimation sample_request ''req-1'' Map.empty
      [Yields False (Data (tool_chunk [first_fragment ''call_1'' ''get_weather'' ''{}'']))]))
   \<and> convert_streaming With_Cancellation no_json config_enable_token_estimation
      sample_request ''req-1'' Map.empty
      [Yields False (Data (tool_chunk [first_fragment ''call_1'' ''get_weather'' ''{}'']))] =
     ([EVENT_MESSAGE_START ''claude-3-haiku'', EVENT_CONTENT_BLOCK_START 0 CONTENT_TEXT,
       EVENT_PING,
       EVENT_CONTENT_BLOCK_START 1 (CONTENT_TOOL_USE (Some ''call_1'') (Some ''get_weather'')),
       EVENT_CONTENT_BLOCK_STOP 0, EVENT_CONTENT_BLOCK_STOP 1],
      Propagated no_attribute_error, Map.empty)
   \<and> convert_streaming With_Cancellation no_json (Some False) sample_request
      ''req-1'' Map.empty
      [Yields False (Data (tool_chunk [first_fragment ''call_1'' ''get_weather'' ''{}'']))] =
     ([EVENT_MESSAGE_START ''claude-3-haiku'', EVENT_CONTENT_BLOCK_START 0 CONTENT_TEXT,
       EVENT_PING,
       EVENT_CONTENT_BLOCK_START 1 (CONTENT_TOOL_USE (Some ''call_1'') (Some ''get_weather'')),
       EVENT_CONTENT_BLOCK_STOP 0, EVENT_CONTENT_BLOCK_STOP 1,
       EVENT_MESSAGE_DELTA STOP_END_TURN 0 0, EVENT_MESSAGE_STOP],
      Exhausted, Map.empty)"
proof -
  have c: "convert_streaming With_Cancellation no_json config_enable_token_estimation
      sample_request ''req-1'' Map.empty
      [Yields False (Data (tool_chunk [first_fragment ''call_1'' ''get_weather'' ''{}'']))] =
     ([EVENT_MESSAGE_START ''claude-3-haiku'', EVENT_CONTENT_BLOCK_START 0 CONTENT_TEXT,
       EVENT_PING,
       EVENT_CONTENT_BLOCK_START 1 (CONTENT_TOOL_USE (Some ''call_1'') (Some ''get_weather'')),
       EVENT_CONTENT_BLOCK_STOP 0, EVENT_CONTENT_BLOCK_STOP 1],
      Propagated no_attribute_error, Map.empty)"
    by (simp add: translator_defs sample_request_def)
  have d: "convert_streaming With_Cancellation no_json (Some False) sample_request
      ''req-1'' Map.empty
      [Yields False (Data (tool_chunk [first_fragment ''call_1'' ''get_weather'' ''{}'']))] =
     ([EVENT_MESSAGE_START ''claude-3-haiku'', EVENT_CONTENT_BLOCK_START 0 CONTENT_TEXT,
       EVENT_PING,
       EVENT_CONTENT_BLOCK_START 1 (CONTENT_TOOL_USE (Some ''call_1'') (Some ''get_weather'')),
       EVENT_CONTENT_BLOCK_STOP 0, EVENT_CONTENT_BLOCK_STOP 1,
       EVENT_MESSAGE_DELTA STOP_END_TURN 0 0, EVENT_MESSAGE_STOP],
      Exhausted, Map.empty)"
    by (simp add: translator_defs sample_request_def)
  have "blocks_closed (fst (convert_streaming With_Cancellation no_json
      config_enable_token_estimation sample_request ''req-1'' Map.empty
      [Yields False (Data (tool_chunk [first_fragment ''call_1'' ''get_weather'' ''{}'']))]))"
    unfolding c fst_conv
    by (rule blocks_closed_without_error [OF c, THEN conjunct1]) simp_all
  with c d show ?thesis
    by simp
qed

theorem error_stream_leaves_block_open:
  "\<not> blocks_closed (fst (convert_streaming With_Cancellation no_json
      config_enable_token_estimation sample_request ''req-1'' Map.empty
      [Yields False (error_line ''timeout_error'' ''Timeout waiting for streaming chunk'')]))"
  by (simp add: translator_defs stopped_blocks_def map_filter_def)

text \<open>
  C4. In the cancellation-aware translator, when the loop reaches a chunk whose payload
  has an error object (the client being connected), the output is the events sent so
  far followed by one error event built from that object, and the generator is
  exhausted there: it does not raise, the registry is untouched, the output holds no
  other error event and no content_block_stop, message_delta or message_stop.
\<close>

theorem inline_error_ends_stream:
  "passes With_Cancellation jl pre initial_state = Some (es, st) \<Longrightarrow>
   chunk_error c = Some error_info \<Longrightarrow>
   convert_openai_streaming_to_claude_with_cancellation jl en req rid reg
       (pre @ Yields False (Data c) # rest) =
     (opening_events req @ es @ [inline_error_event error_info], Exhausted, reg)
   \<and> filter is_error (opening_events req @ es @ [inline_error_event error_info]) =
       [inline_error_event error_info]
   \<and> filter is_closing (opening_events req @ es @ [inline_error_event error_info]) = []"
proof -
  assume p: "passes With_Cancellation jl pre initial_state = Some (es, st)"
    and c: "chunk_error c = Some error_info"
  from c have l: "run_loop With_Cancellation jl rid (Yields False (Data c) # rest) st reg =
      ([inline_error_event error_info], Loop_Returned, reg)"
    by (simp add: process_chunk_def)
  from run_loop_passes [OF p, of rid "Yields False (Data c) # rest" reg] l
  have "run_loop With_Cancellation jl rid (pre @ Yields False (Data c) # rest) initial_state reg
      = (es @ [inline_error_event error_info], Loop_Returned, reg)"
    by simp
  then have a: "convert_openai_streaming_to_claude_with_cancellation jl en req rid reg
       (pre @ Yields False (Data c) # rest) =
     (opening_events req @ es @ [inline_error_event error_info], Exhausted, reg)"
    by (simp add: convert_openai_streaming_to_claude_with_cancellation_def convert_streaming_def)
  from passes_ok [OF p] have be: "list_all is_block_event es"
    by (simp add: state_step_def step_ok_def)
  have ie: "is_error (inline_error_event error_info)"
    "\<not> is_closing (inline_error_event error_info)"
    by (simp_all add: inline_error_event_def)
  from a ie block_events_no_error [OF be] block_events_no_closing [OF be] show ?thesis
    by simp
qed

theorem inline_error_ends_stream_witness:
  "convert_openai_streaming_to_claude_with_cancellation no_json config_enable_token_estimation
       sample_request ''req-1'' Map.empty
       ([Yields False (Data (tool_chunk [first_fragment ''call_1'' ''get_weather'' ''{}'']))]
        @ Yields False (error_line ''timeout_error'' ''Timeout waiting for streaming chunk'')
        # [Yields False (Data (finish_chunk ''stop''))]) =
     ([EVENT_MESSAGE_START ''claude-3-haiku'', EVENT_CONTENT_BLOCK_START 0 CONTENT_TEXT,
       EVENT_PING,
       EVENT_CONTENT_BLOCK_START 1 (CONTENT_TOOL_USE (Some ''call_1'') (Some ''get_weather'')),
       EVENT_ERROR ''timeout_error'' ''Timeout waiting for streaming chunk''],
      Exhausted, Map.empty)"
proof -
  obtain es st where p: "passes With_Cancellation no_json
      [Yields False (Data (tool_chunk [first_fragment ''call_1'' ''get_weather'' ''{}'']))]
      initial_state = Some (es, st)"
    and es: "es = [EVENT_CONTENT_BLOCK_START 1
                     (CONTENT_TOOL_USE (Some ''call_1'') (Some ''get_weather''))]"
    by (simp add: translator_defs)
  have l: "error_line ''timeout_error'' ''Timeout waiting for streaming chunk'' =
      Data \<lparr>chunk_error = Some \<lparr>err_type = Some ''timeout_error'',
               err_message = Some ''Timeout waiting for streaming chunk''\<rparr>,
             choices = [], usage = None\<rparr>"
    by (simp add: error_line_def)
  have c: "chunk_error \<lparr>chunk_error = Some \<lparr>err_type = Some ''timeout_error'',
               err_message = Some ''Timeout waiting for streaming chunk''\<rparr>,
             choices = [], usage = None\<rparr> =
       Some \<lparr>err_type = Some ''timeout_error'',
              err_message = Some ''Timeout waiting for streaming chunk''\<rparr>"
    by simp
  from inline_error_ends_stream [OF p c, of config_enable_token_estimation sample_request
      "''req-1''" Map.empty
      "[Yields False (Data (finish_chunk ''stop''))]"]
  show ?thesis
    unfolding l
    by (simp add: es opening_events_def sample_request_def inline_error_event_def)
qed

text \<open>
  C10. In the cancellation-aware translator, when the client is found disconnected at a
  line the loop has reached, the translator calls \<open>cancel_request\<close> for the request id
  and reads no further line. It sends content_block_stop for block 0 and one for each
  tool block started so far, and no error event. Then it reads the configuration flag:
  on the repository's configuration object, which has no such attribute, the read
  raises, the exception leaves the generator, and neither message_delta nor
  message_stop is sent. Were the flag to read as a value, the message_delta with the
  stop reason and the usage of that moment and the message_stop would follow.
\<close>

theorem disconnect_raises_before_message_delta:
  "passes With_Cancellation jl pre initial_state = Some (es, st) \<Longrightarrow>
   convert_openai_streaming_to_claude_with_cancellation jl config_enable_token_estimation
       req rid reg (pre @ Yields True l # rest) =
     (opening_events req @ es
        @ [EVENT_CONTENT_BLOCK_STOP 0]
        @ map EVENT_CONTENT_BLOCK_STOP (started_indices (current_tool_calls st)),
      Propagated no_attribute_error, snd (cancel_request reg rid))
   \<and> filter is_message_end
         (fst (convert_openai_streaming_to_claude_with_cancellation jl
            config_enable_token_estimation req rid reg (pre @ Yields True l # rest))) = []
   \<and> filter is_error
         (fst (convert_openai_streaming_to_claude_with_cancellation jl
            config_enable_token_estimation req rid reg (pre @ Yields True l # rest))) = []
   \<and> (\<forall>b. \<exists>i out.
         convert_openai_streaming_to_claude_with_cancellation jl (Some b) req rid reg
             (pre @ Yields True l # rest) =
           (opening_events req @ es
              @ [EVENT_CONTENT_BLOCK_STOP 0]
              @ map EVENT_CONTENT_BLOCK_STOP (started_indices (current_tool_calls st))
              @ [EVENT_MESSAGE_DELTA (final_stop_reason st) i out, EVENT_MESSAGE_STOP],
            Exhausted, snd (cancel_request reg rid))
         \<and> final_usage (Some b) req st = Inr (i, out))
   \<and> mset (started_indices (current_tool_calls st)) = mset (started_blocks es)
   \<and> fst (cancel_request reg rid) = (rid \<in> dom reg)
   \<and> (\<forall>b. reg rid = Some b \<longrightarrow> snd (cancel_request reg rid) rid = Some True)"
proof -
  assume p: "passes With_Cancellation jl pre initial_state = Some (es, st)"
  have lp: "run_loop With_Cancellation jl rid (Yields True l # rest) st reg =
      ([], Loop_Done st, snd (cancel_request reg rid))"
    by simp
  from run_loop_passes [OF p, of rid "Yields True l # rest" reg] lp
  have rl: "run_loop With_Cancellation jl rid (pre @ Yields True l # rest) initial_state reg
      = (es, Loop_Done st, snd (cancel_request reg rid))"
    by simp
  then have a: "convert_openai_streaming_to_claude_with_cancellation jl
       config_enable_token_estimation req rid reg (pre @ Yields True l # rest) =
     (opening_events req @ es
        @ [EVENT_CONTENT_BLOCK_STOP 0]
        @ map EVENT_CONTENT_BLOCK_STOP (started_indices (current_tool_calls st)),
      Propagated no_attribute_error, snd (cancel_request reg rid))"
    by (simp add: convert_openai_streaming_to_claude_with_cancellation_def convert_streaming_def
        closing_events_def final_usage_def config_enable_token_estimation_def Let_def
        tool_stops_indices text_block_index_def)
  from passes_ok [OF p] have be: "list_all is_block_event es"
    and m: "mset (started_indices (current_tool_calls st)) = mset (started_blocks es)"
    by (simp_all add: state_step_def step_ok_def started_indices_def del: upt_Suc)
  have me: "filter is_message_end es = []"
    using be by (induction es) (auto elim: is_block_event.elims)
  have nm: "filter is_message_end
         (fst (convert_openai_streaming_to_claude_with_cancellation jl
            config_enable_token_estimation req rid reg (pre @ Yields True l # rest))) = []"
    using me by (simp add: a opening_events_def filter_map comp_def)
  have ne: "filter is_error
         (fst (convert_openai_streaming_to_claude_with_cancellation jl
            config_enable_token_estimation req rid reg (pre @ Yields True l # rest))) = []"
    using block_events_no_error [OF be] by (simp add: a filter_map comp_def)
  have fl: "\<exists>i out.
         convert_openai_streaming_to_claude_with_cancellation jl (Some b) req rid reg
             (pre @ Yields True l # rest) =
           (opening_events req @ es
              @ [EVENT_CONTENT_BLOCK_STOP 0]
              @ map EVENT_CONTENT_BLOCK_STOP (started_indices (current_tool_calls st))
              @ [EVENT_MESSAGE_DELTA (final_stop_reason st) i out, EVENT_MESSAGE_STOP],
            Exhausted, snd (cancel_request reg rid))
         \<and> final_usage (Some b) req st = Inr (i, out)" for b
    using rl
    by (simp add: convert_openai_streaming_to_claude_with_cancellation_def convert_streaming_def
        closing_events_def final_usage_def Let_def tool_stops_indices text_block_index_def)
  have c1: "fst (cancel_request reg rid) = (rid \<in> dom reg)"
    by (simp add: cancel_request_def)
  have c2: "snd (cancel_request reg rid) rid = Some True" if "reg rid = Some b" for b
    using that by (auto simp: cancel_request_def)
  from a nm ne fl m c1 c2 show ?thesis by blast
qed

theorem disconnect_raises_before_message_delta_witness:
  "convert_openai_streaming_to_claude_with_cancellation no_json config_enable_token_estimation
       sample_request ''req-1'' [''req-1'' \<mapsto> False]
       ([Yields False (Data (tool_chunk [first_fragment ''call_1'' ''get_weather'' ''{}'']))]
        @ Yields True (Data (finish_chunk ''stop'')) # []) =
     ([EVENT_MESSAGE_START ''claude-3-haiku'', EVENT_CONTENT_BLOCK_START 0 CONTENT_TEXT,
       EVENT_PING,
       EVENT_CONTENT_BLOCK_START 1 (CONTENT_TOOL_USE (Some ''call_1'') (Some ''get_weather'')),
       EVENT_CONTENT_BLOCK_STOP 0, EVENT_CONTENT_BLOCK_STOP 1],
      Propagated no_attribute_error, [''req-1'' \<mapsto> True])"
proof -
  obtain es st where p: "passes With_Cancellation no_json
      [Yields False (Data (tool_chunk [first_fragment ''call_1'' ''get_weather'' ''{}'']))]
      initial_state = Some (es, st)"
    and es: "es = [EVENT_CONTENT_BLOCK_START 1
                     (CONTENT_TOOL_USE (Some ''call_1'') (Some ''get_weather''))]"
    and st: "st = \<lparr>tool_block_counter = 1,
        current_tool_calls = [(0, \<lparr>tool_id = Some ''call_1'', tool_name = Some ''get_weather'',
           args_buffer = ''{}'', json_sent = False, claude_index = Some 1, started = True\<rparr>)],
        final_stop_reason = STOP_END_TURN, total_input_tokens = 0, total_output_tokens = 0\<rparr>"
    by (simp add: translator_defs)
  have r: "snd (cancel_request [''req-1'' \<mapsto> False] ''req-1'') = [''req-1'' \<mapsto> True]"
    by (simp add: cancel_request_def)
  from disconnect_raises_before_message_delta [OF p, of sample_request "''req-1''"
      "[''req-1'' \<mapsto> False]" "Data (finish_chunk ''stop'')" "[]", THEN conjunct1]
  show ?thesis
    by (simp add: es st r opening_events_def sample_request_def
        started_indices_def started_index_def)
qed

lemma json_deltas_append [simp]: "json_deltas (xs @ ys) = json_deltas xs @ json_deltas ys"
  by (simp add: json_deltas_def map_filter_def)

lemma json_deltas_Nil [simp]: "json_deltas [] = []"
  by (simp add: json_deltas_def map_filter_def)

lemma json_deltas_Cons:
  "json_deltas (e # es) =
     (case json_delta e of None \<Rightarrow> json_deltas es | Some d \<Rightarrow> d # json_deltas es)"
  by (simp add: json_deltas_def map_filter_def split: option.splits)

lemma handle_arguments_started:
  "started tc \<Longrightarrow>
   handle_arguments v jl \<lparr>fn_name = n0, fn_arguments = Val a\<rparr> tc =
     (if jl (args_buffer tc @ a) \<noteq> None \<and> \<not> json_sent tc
      then [EVENT_CONTENT_BLOCK_DELTA (claude_index tc) (DELTA_INPUT_JSON (args_buffer tc @ a))]
      else [],
      Inr (tc\<lparr>args_buffer := args_buffer tc @ a,
               json_sent := (json_sent tc \<or> jl (args_buffer tc @ a) \<noteq> None)\<rparr>))"
  by (auto simp: handle_arguments_def Let_def split: option.splits)

lemma handle_arguments_not_started:
  "\<not> started tc \<Longrightarrow>
   handle_arguments v jl \<lparr>fn_name = n0, fn_arguments = Val a\<rparr> tc = ([], Inr tc)"
  by (simp add: handle_arguments_def)

lemma next_fragment_line:
  "current_tool_calls st = [(0, tc)] \<Longrightarrow> started tc \<Longrightarrow>
   process_line v jl (Data (tool_chunk [next_fragment a])) st =
     (if jl (args_buffer tc @ a) \<noteq> None \<and> \<not> json_sent tc
      then [EVENT_CONTENT_BLOCK_DELTA (claude_index tc) (DELTA_INPUT_JSON (args_buffer tc @ a))]
      else [],
      Continue (st\<lparr>tool_block_counter := tool_block_counter st,
                   current_tool_calls :=
                     [(0, tc\<lparr>args_buffer := args_buffer tc @ a,
                             json_sent := (json_sent tc \<or> jl (args_buffer tc @ a) \<noteq> None)\<rparr>)]\<rparr>))"
  by (simp add: process_chunk_def process_choice_def tool_chunk_def next_fragment_def
      handle_tc_delta_def apply_function_data_def get_tool_call_def merge_id_name_def
      start_block_def handle_arguments_started update_usage_def get_opt_def Let_def)

lemma next_fragments_pass:
  "current_tool_calls st = [(0, tc)] \<Longrightarrow> started tc \<Longrightarrow>
   \<exists>es st' tc'.
     passes v jl (map (\<lambda>a. Yields False (Data (tool_chunk [next_fragment a]))) frags) st
       = Some (es, st')
     \<and> current_tool_calls st' = [(0, tc')] \<and> started tc'
     \<and> args_buffer tc' = args_buffer tc @ concat frags
     \<and> json_deltas es =
         (if json_sent tc then []
          else case first_parse jl (args_buffer tc) frags of
                 None \<Rightarrow> []
               | Some b \<Rightarrow> [(claude_index tc, b)])"
proof (induction frags arbitrary: st tc)
  case Nil
  then show ?case by simp
next
  case (Cons a frags)
  define tc1 where "tc1 = tc\<lparr>args_buffer := args_buffer tc @ a,
                             json_sent := (json_sent tc \<or> jl (args_buffer tc @ a) \<noteq> None)\<rparr>"
  define st1 where "st1 = st\<lparr>tool_block_counter := tool_block_counter st,
                             current_tool_calls := [(0, tc1)]\<rparr>"
  define es1 where "es1 = (if jl (args_buffer tc @ a) \<noteq> None \<and> \<not> json_sent tc
      then [EVENT_CONTENT_BLOCK_DELTA (claude_index tc) (DELTA_INPUT_JSON (args_buffer tc @ a))]
      else [])"
  have pl: "process_line v jl (Data (tool_chunk [next_fragment a])) st = (es1, Continue st1)"
    using next_fragment_line [OF Cons.prems, of v jl a] by (simp add: es1_def st1_def tc1_def)
  have c1: "current_tool_calls st1 = [(0, tc1)]" and s1: "started tc1"
    using Cons.prems by (simp_all add: st1_def tc1_def)
  from Cons.IH [OF c1 s1] obtain es2 st' tc' where
    p: "passes v jl (map (\<lambda>a. Yields False (Data (tool_chunk [next_fragment a]))) frags) st1
          = Some (es2, st')"
    and c: "current_tool_calls st' = [(0, tc')]" and s: "started tc'"
    and b: "args_buffer tc' = args_buffer tc1 @ concat frags"
    and j: "json_deltas es2 =
         (if json_sent tc1 then []
          else case first_parse jl (args_buffer tc1) frags of
                 None \<Rightarrow> []
               | Some b \<Rightarrow> [(claude_index tc1, b)])"
    by blast
  have "passes v jl (map (\<lambda>a. Yields False (Data (tool_chunk [next_fragment a]))) (a # frags)) st
          = Some (es1 @ es2, st')"
    using pl p by simp
  moreover have "args_buffer tc' = args_buffer tc @ concat (a # frags)"
    using b by (simp add: tc1_def)
  moreover have "json_deltas (es1 @ es2) =
         (if json_sent tc then []
          else case first_parse jl (args_buffer tc) (a # frags) of
                 None \<Rightarrow> []
               | Some b \<Rightarrow> [(claude_index tc, b)])"
  proof -
    have ci: "claude_index tc1 = claude_index tc"
      and ab: "args_buffer tc1 = args_buffer tc @ a"
      and js: "json_sent tc1 = (json_sent tc \<or> jl (args_buffer tc @ a) \<noteq> None)"
      by (simp_all add: tc1_def)
    show ?thesis
      using j unfolding ci ab js by (auto simp: es1_def json_deltas_Cons)
  qed
  ultimately show ?case using c s by blast
qed

lemma fragment_stream_pass:
  "i \<noteq> [] \<Longrightarrow> n \<noteq> [] \<Longrightarrow> frags \<noteq> [] \<Longrightarrow>
   \<exists>es st tc.
     passes v jl (fragment_stream i n frags) initial_state = Some (es, st)
     \<and> current_tool_calls st = [(0, tc)]
     \<and> args_buffer tc = concat frags
     \<and> json_deltas es =
         (case first_parse jl [] frags of None \<Rightarrow> [] | Some b \<Rightarrow> [(Some 1, b)])"
proof -
  assume i: "i \<noteq> []" and n: "n \<noteq> []" and f: "frags \<noteq> []"
  from f obtain a as where frags: "frags = a # as" by (cases frags) auto
  define tc1 where "tc1 = \<lparr>tool_id = Some i, tool_name = Some n, args_buffer = a,
      json_sent = (jl a \<noteq> None), claude_index = Some 1, started = True\<rparr>"
  define st1 where "st1 = initial_state\<lparr>tool_block_counter := 1, current_tool_calls := [(0, tc1)]\<rparr>"
  define es1 where "es1 = EVENT_CONTENT_BLOCK_START 1 (CONTENT_TOOL_USE (Some i) (Some n))
      # (if jl a \<noteq> None then [EVENT_CONTENT_BLOCK_DELTA (Some 1) (DELTA_INPUT_JSON a)] else [])"
  have pl: "process_line v jl (Data (tool_chunk [first_fragment i n a])) initial_state =
      (es1, Continue st1)"
    using i n
    by (simp add: process_chunk_def process_choice_def tool_chunk_def first_fragment_def
        handle_tc_delta_def apply_function_data_def get_tool_call_def merge_id_name_def
        start_block_def handle_arguments_started update_usage_def get_opt_def Let_def
        new_tool_call_def initial_state_def text_block_index_def es1_def st1_def tc1_def)
  have c1: "current_tool_calls st1 = [(0, tc1)]" and s1: "started tc1"
    by (simp_all add: st1_def tc1_def)
  from next_fragments_pass [OF c1 s1, of v jl as] obtain es2 st' tc' where
    p: "passes v jl (map (\<lambda>a. Yields False (Data (tool_chunk [next_fragment a]))) as) st1
          = Some (es2, st')"
    and c: "current_tool_calls st' = [(0, tc')]"
    and b: "args_buffer tc' = args_buffer tc1 @ concat as"
    and j: "json_deltas es2 =
         (if json_sent tc1 then []
          else case first_parse jl (args_buffer tc1) as of
                 None \<Rightarrow> []
               | Some b \<Rightarrow> [(claude_index tc1, b)])"
    by blast
  have "passes v jl (fragment_stream i n frags) initial_state = Some (es1 @ es2, st')"
    using pl p by (simp add: frags)
  moreover have "args_buffer tc' = concat frags"
    using b by (simp add: tc1_def frags)
  moreover have "json_deltas (es1 @ es2) =
         (case first_parse jl [] frags of None \<Rightarrow> [] | Some b \<Rightarrow> [(Some 1, b)])"
  proof -
    have ci: "claude_index tc1 = Some 1"
      and ab: "args_buffer tc1 = a"
      and js: "json_sent tc1 = (jl a \<noteq> None)"
      by (simp_all add: tc1_def)
    show ?thesis
      using j unfolding ci ab js by (auto simp: es1_def frags json_deltas_Cons)
  qed
  ultimately show ?thesis using c by blast
qed

lemma sent_indices_update:
  "mset (sent_indices (AList.update k v al)) + mset (sent_index (get_tool_call al k)) =
   mset (sent_indices al) + mset (sent_index v)"
proof (induction al)
  case Nil
  show ?case
    by (simp add: sent_indices_def get_tool_call_def sent_index_def new_tool_call_def)
next
  case (Cons p al)
  obtain k' x where p: "p = (k', x)" by (cases p)
  show ?case
  proof (cases "k' = k")
    case True
    with p show ?thesis by (simp add: sent_indices_def get_tool_call_def)
  next
    case False
    with p Cons.IH show ?thesis
      by (simp add: sent_indices_def get_tool_call_def)
  qed
qed

lemma well_formed_get:
  "list_all well_formed (map snd calls) \<Longrightarrow> well_formed (get_tool_call calls k)"
  by (induction calls)
    (auto simp: get_tool_call_def well_formed_def new_tool_call_def)

lemma well_formed_update:
  "list_all well_formed (map snd calls) \<Longrightarrow> well_formed x \<Longrightarrow>
   list_all well_formed (map snd (AList.update k x calls))"
  by (induction calls) auto

lemma upt_mset_append:
  "c \<le> c' \<Longrightarrow> mset [Suc 0..<Suc c] + mset [Suc c..<Suc c'] = mset [Suc 0..<Suc c']"
proof -
  assume "c \<le> c'"
  then have "[Suc 0..<Suc c] @ [Suc c..<Suc c'] = [Suc 0..<Suc c']"
    by (metis Suc_le_mono upt_add_eq_append le_add_diff_inverse le0)
  then show ?thesis by (metis mset_append)
qed

lemma delta_inv_update:
  assumes inv: "delta_inv c calls es0"
    and wf: "well_formed tc'"
    and le: "c \<le> c'"
    and st: "mset (started_index tc') =
             mset (started_index (get_tool_call calls k)) + mset [Suc c..<Suc c']"
    and se: "mset (sent_index tc') =
             mset (sent_index (get_tool_call calls k)) + mset (map fst (json_deltas es))"
  shows "delta_inv c' (AList.update k tc' calls) (es0 @ es)"
proof -
  from inv have w: "list_all well_formed (map snd calls)"
    and s0: "mset (started_indices calls) = mset [Suc 0..<Suc c]"
    and j0: "mset (map fst (json_deltas es0)) = mset (sent_indices calls)"
    by (simp_all add: delta_inv_def)
  have "mset (started_indices (AList.update k tc' calls))
          + mset (started_index (get_tool_call calls k)) =
        mset (started_indices calls) + mset (started_index tc')"
    by (rule started_indices_update)
  with st s0 have "mset (started_indices (AList.update k tc' calls)) =
        mset [Suc 0..<Suc c] + mset [Suc c..<Suc c']"
    by simp
  with upt_mset_append [OF le]
  have a: "mset (started_indices (AList.update k tc' calls)) = mset [Suc 0..<Suc c']"
    by simp
  have "mset (sent_indices (AList.update k tc' calls))
          + mset (sent_index (get_tool_call calls k)) =
        mset (sent_indices calls) + mset (sent_index tc')"
    by (rule sent_indices_update)
  with se j0 have b: "mset (map fst (json_deltas (es0 @ es))) =
        mset (sent_indices (AList.update k tc' calls))"
    by simp
  from well_formed_update [OF w wf] a b show ?thesis
    unfolding delta_inv_def by blast
qed

lemma delta_inv_no_json:
  "delta_inv c calls es0 \<Longrightarrow> json_deltas es = [] \<Longrightarrow> delta_inv c calls (es0 @ es)"
  by (simp add: delta_inv_def)

lemma merge_id_name_json [simp]:
  "well_formed (merge_id_name tcd fd tc) = well_formed tc"
  "sent_index (merge_id_name tcd fd tc) = sent_index tc"
  by (simp_all add: merge_id_name_def well_formed_def sent_index_def Let_def)

lemma start_block_json:
  "start_block c tc = (es, c', tc') \<Longrightarrow> well_formed tc \<Longrightarrow>
   well_formed tc' \<and> sent_index tc' = sent_index tc \<and> json_deltas es = []"
  by (auto simp: start_block_def Let_def well_formed_def sent_index_def json_deltas_Cons
      split: if_splits)

lemma handle_arguments_json:
  "handle_arguments v jl fd tc = (es, Inr tc') \<Longrightarrow> well_formed tc \<Longrightarrow>
   well_formed tc'
   \<and> mset (sent_index tc') = mset (sent_index tc) + mset (map fst (json_deltas es))"
  by (auto simp: handle_arguments_def Let_def well_formed_def sent_index_def json_deltas_Cons
      split: field.splits if_splits option.splits)

lemma handle_arguments_raises:
  "handle_arguments v jl fd tc = (es, Inl e) \<Longrightarrow> es = []"
  by (auto simp: handle_arguments_def Let_def split: field.splits if_splits option.splits)

lemma apply_function_data_json:
  assumes inv: "delta_inv c calls es0"
    and a: "apply_function_data v jl tcd fd c calls = (es, r)"
  shows "\<exists>c' calls'. delta_inv c' calls' (es0 @ es) \<and> (\<forall>x. r = Inr x \<longrightarrow> x = (c', calls'))"
proof -
  define k where "k = (case tc_index tcd of None \<Rightarrow> 0 | Some i \<Rightarrow> i)"
  define tc where "tc = get_tool_call calls k"
  obtain es1 c1 tc2 where sb: "start_block c (merge_id_name tcd fd tc) = (es1, c1, tc2)"
    by (metis prod_cases3)
  obtain es2 r2 where ha: "handle_arguments v jl fd tc2 = (es2, r2)"
    by (cases "handle_arguments v jl fd tc2")
  from inv have w: "list_all well_formed (map snd calls)" by (simp add: delta_inv_def)
  have wtc: "well_formed tc" unfolding tc_def by (rule well_formed_get [OF w])
  then have wm: "well_formed (merge_id_name tcd fd tc)" by simp
  note s = start_block_ok [OF sb]
  note sj = start_block_json [OF sb wm]
  from s have le: "c \<le> c1" by simp
  from s have st2: "mset (started_index tc2) =
      mset (started_index (get_tool_call calls k)) + mset [Suc c..<Suc c1]"
    by (simp add: tc_def)
  from sj have se2: "sent_index tc2 = sent_index (get_tool_call calls k)"
    by (simp add: tc_def)
  show ?thesis
  proof (cases r2)
    case (Inl e)
    from handle_arguments_raises [OF ha [unfolded Inl]] have e2: "es2 = []" .
    from a sb ha Inl e2 have es: "es = es1" and r: "r = Inl e"
      by (simp_all add: apply_function_data_def Let_def k_def tc_def)
    have "delta_inv c1 (AList.update k tc2 calls) (es0 @ es1)"
      by (rule delta_inv_update [OF inv _ le st2]) (use sj se2 in simp_all)
    with es r show ?thesis by auto
  next
    case (Inr tc3)
    from a sb ha Inr have es: "es = es1 @ es2" and r: "r = Inr (c1, AList.update k tc3 calls)"
      by (simp_all add: apply_function_data_def Let_def k_def tc_def)
    note h = handle_arguments_ok [OF ha [unfolded Inr]]
    from sj have w2: "well_formed tc2" by simp
    note hj = handle_arguments_json [OF ha [unfolded Inr] w2]
    have "delta_inv c1 (AList.update k tc3 calls) (es0 @ es1 @ es2)"
      by (rule delta_inv_update [OF inv _ le]) (use h hj st2 se2 sj in simp_all)
    with es r show ?thesis by auto
  qed
qed

lemma handle_tc_delta_json:
  assumes inv: "delta_inv c calls es0"
    and a: "handle_tc_delta v jl tcd c calls = (es, r)"
  shows "\<exists>c' calls'. delta_inv c' calls' (es0 @ es) \<and> (\<forall>x. r = Inr x \<longrightarrow> x = (c', calls'))"
proof (cases "tc_function tcd")
  case Null
  with a have "es = []" and "\<forall>x. r \<noteq> Inr x" by (auto simp: handle_tc_delta_def)
  with inv show ?thesis by auto
next
  case Absent
  with a have "apply_function_data v jl tcd \<lparr>fn_name = None, fn_arguments = Absent\<rparr> c calls
      = (es, r)"
    by (simp add: handle_tc_delta_def)
  from apply_function_data_json [OF inv this] show ?thesis .
next
  case (Val fd)
  with a have "apply_function_data v jl tcd fd c calls = (es, r)"
    by (simp add: handle_tc_delta_def)
  from apply_function_data_json [OF inv this] show ?thesis .
qed

lemma handle_tool_calls_json:
  "delta_inv c calls es0 \<Longrightarrow> handle_tool_calls v jl tcs c calls = (es, r) \<Longrightarrow>
   \<exists>c' calls'. delta_inv c' calls' (es0 @ es) \<and> (\<forall>x. r = Inr x \<longrightarrow> x = (c', calls'))"
proof (induction tcs arbitrary: c calls es0 es r)
  case Nil
  then show ?case by auto
next
  case (Cons tcd tcs)
  obtain es1 r1 where h: "handle_tc_delta v jl tcd c calls = (es1, r1)"
    by (cases "handle_tc_delta v jl tcd c calls")
  from handle_tc_delta_json [OF Cons.prems(1) h] obtain c1 calls1 where
    i1: "delta_inv c1 calls1 (es0 @ es1)" and x1: "\<forall>x. r1 = Inr x \<longrightarrow> x = (c1, calls1)"
    by blast
  show ?case
  proof (cases r1)
    case (Inl e)
    with Cons.prems(2) h have "es = es1" and "r = Inl e" by auto
    with i1 show ?thesis by auto
  next
    case (Inr x)
    with x1 have r1: "r1 = Inr (c1, calls1)" by simp
    obtain es2 r2 where t: "handle_tool_calls v jl tcs c1 calls1 = (es2, r2)"
      by (cases "handle_tool_calls v jl tcs c1 calls1")
    from Cons.prems(2) h r1 t have es: "es = es1 @ es2" and r: "r = r2" by auto
    from Cons.IH [OF i1 t] es r show ?thesis by simp
  qed
qed

lemma process_choice_json:
  assumes inv: "delta_inv (tool_block_counter st) (current_tool_calls st) es0"
    and a: "process_choice v jl ch st = (es, s)"
  shows "\<exists>c' calls'. delta_inv c' calls' (es0 @ es)
     \<and> (\<forall>st'. s = Continue st' \<or> s = Break st' \<longrightarrow>
           tool_block_counter st' = c' \<and> current_tool_calls st' = calls')"
proof -
  define te where "te = (if truthy (delta_content (delta ch))
             then [EVENT_CONTENT_BLOCK_DELTA (Some text_block_index)
                     (DELTA_TEXT (case delta_content (delta ch) of Some t \<Rightarrow> t | None \<Rightarrow> []))]
             else [])"
  define tr where "tr = (case tool_calls (delta ch) of
               Absent \<Rightarrow> ([], Inr (tool_block_counter st, current_tool_calls st))
             | Null \<Rightarrow>
                 if v = Basic then ([], Inl (TypeError ''NoneType object is not iterable''))
                 else ([], Inr (tool_block_counter st, current_tool_calls st))
             | Val tcs \<Rightarrow>
                 handle_tool_calls v jl tcs (tool_block_counter st) (current_tool_calls st))"
  obtain tev r where tr_eq: "tr = (tev, r)" by (cases tr)
  have "json_deltas te = []" by (simp add: te_def json_deltas_Cons)
  from delta_inv_no_json [OF inv this]
  have i1: "delta_inv (tool_block_counter st) (current_tool_calls st) (es0 @ te)" .
  have "\<exists>c' calls'. delta_inv c' calls' ((es0 @ te) @ tev) \<and> (\<forall>x. r = Inr x \<longrightarrow> x = (c', calls'))"
  proof (cases "tool_calls (delta ch)")
    case (Val tcs)
    with tr_eq have "handle_tool_calls v jl tcs (tool_block_counter st) (current_tool_calls st)
        = (tev, r)"
      by (simp add: tr_def)
    from handle_tool_calls_json [OF i1 this] show ?thesis .
  next
    case Absent
    with tr_eq i1 show ?thesis by (auto simp: tr_def)
  next
    case Null
    with tr_eq i1 show ?thesis by (auto simp: tr_def split: if_splits)
  qed
  then obtain c' calls' where i2: "delta_inv c' calls' (es0 @ te @ tev)"
    and x: "\<forall>x. r = Inr x \<longrightarrow> x = (c', calls')"
    by auto
  from a tr_eq have es: "es = te @ tev"
    by (cases r) (auto simp: process_choice_def Let_def tr_def [symmetric] te_def [symmetric]
        split: if_splits)
  have "tool_block_counter st' = c' \<and> current_tool_calls st' = calls'"
    if "s = Continue st' \<or> s = Break st'" for st'
    using a tr_eq x that
    by (cases r) (auto simp: process_choice_def Let_def tr_def [symmetric] split: if_splits)
  with i2 es show ?thesis by blast
qed

lemma process_line_json:
  assumes inv: "delta_inv (tool_block_counter st) (current_tool_calls st) es0"
    and a: "process_line v jl l st = (es, s)"
  shows "\<exists>c' calls'. delta_inv c' calls' (es0 @ es)
     \<and> (\<forall>st'. s = Continue st' \<or> s = Break st' \<longrightarrow>
           tool_block_counter st' = c' \<and> current_tool_calls st' = calls')"
proof (cases l)
  case (Data c)
  show ?thesis
  proof (cases "v = With_Cancellation \<and> chunk_error c \<noteq> None")
    case True
    with a Data have "json_deltas es = []" and "s = Return"
      by (auto simp: process_chunk_def json_deltas_Cons inline_error_event_def)
    with delta_inv_no_json [OF inv] show ?thesis by blast
  next
    case False
    show ?thesis
    proof (cases "choices c")
      case Nil
      with a Data False inv show ?thesis
        by (auto simp: process_chunk_def)
    next
      case (Cons ch others)
      with a Data False have p: "process_choice v jl ch (update_usage (usage c) st) = (es, s)"
        by (auto simp: process_chunk_def)
      from inv have "delta_inv (tool_block_counter (update_usage (usage c) st))
          (current_tool_calls (update_usage (usage c) st)) es0"
        by simp
      from process_choice_json [OF this p] show ?thesis .
    qed
  qed
qed (use inv a in auto)

lemma run_loop_json:
  "delta_inv (tool_block_counter st) (current_tool_calls st) es0 \<Longrightarrow>
   run_loop v jl rid stream st reg = (es, r) \<Longrightarrow>
   \<exists>c' calls'. delta_inv c' calls' (es0 @ es)"
proof (induction stream arbitrary: st es0 es r)
  case Nil
  then show ?case by auto
next
  case (Cons item stream)
  show ?case
  proof (cases item)
    case (Raises e)
    with Cons.prems show ?thesis by auto
  next
    case (Yields d l)
    show ?thesis
    proof (cases "v = With_Cancellation \<and> d")
      case True
      with Cons.prems Yields show ?thesis by auto
    next
      case False
      obtain es1 s1 where pl: "process_line v jl l st = (es1, s1)"
        by (cases "process_line v jl l st")
      from process_line_json [OF Cons.prems(1) pl] obtain c1 calls1 where
        i1: "delta_inv c1 calls1 (es0 @ es1)"
        and x: "\<forall>st'. s1 = Continue st' \<or> s1 = Break st' \<longrightarrow>
           tool_block_counter st' = c1 \<and> current_tool_calls st' = calls1"
        by blast
      show ?thesis
      proof (cases s1)
        case (Continue st1)
        obtain es2 r2 where rl: "run_loop v jl rid stream st1 reg = (es2, r2)"
          by (cases "run_loop v jl rid stream st1 reg")
        from Cons.prems(2) Yields False pl Continue rl have es: "es = es1 @ es2" by auto
        from x Continue i1
        have "delta_inv (tool_block_counter st1) (current_tool_calls st1) (es0 @ es1)" by simp
        from Cons.IH [OF this rl] es show ?thesis by simp
      next
        case (Break st1)
        with Cons.prems(2) Yields False pl have "es = es1" by auto
        with i1 show ?thesis by blast
      next
        case Return
        with Cons.prems(2) Yields False pl have "es = es1" by auto
        with i1 show ?thesis by blast
      next
        case (Raise e)
        with Cons.prems(2) Yields False pl have "es = es1" by auto
        with i1 show ?thesis by blast
      qed
    qed
  qed
qed

lemma sent_index_started:
  "well_formed tc \<Longrightarrow> sent_index tc = [] \<or> sent_index tc = map Some (started_index tc)"
  by (cases "claude_index tc") (auto simp: sent_index_def started_index_def well_formed_def)

lemma sent_indices_Cons:
  "sent_indices (p # calls) = sent_index (snd p) @ sent_indices calls"
  "started_indices (p # calls) = started_index (snd p) @ started_indices calls"
  by (simp_all add: sent_indices_def started_indices_def)

lemma sent_indices_started:
  "list_all well_formed (map snd calls) \<Longrightarrow>
   set (sent_indices calls) \<subseteq> Some ` set (started_indices calls)"
proof (induction calls)
  case Nil
  show ?case by (simp add: sent_indices_def)
next
  case (Cons p calls)
  from Cons.prems have w: "list_all well_formed (map snd calls)" and wp: "well_formed (snd p)"
    by simp_all
  from sent_index_started [OF wp] Cons.IH [OF w] show ?case
    unfolding sent_indices_Cons by auto
qed

lemma sent_indices_distinct:
  "list_all well_formed (map snd calls) \<Longrightarrow> distinct (started_indices calls) \<Longrightarrow>
   distinct (sent_indices calls)"
proof (induction calls)
  case Nil
  show ?case by (simp add: sent_indices_def)
next
  case (Cons p calls)
  note si = sent_indices_Cons(2) [of p calls]
  from Cons.prems(1) have w: "list_all well_formed (map snd calls)"
    and wp: "well_formed (snd p)"
    by simp_all
  from Cons.prems(2) have d: "distinct (started_indices calls)"
    and dj: "set (started_index (snd p)) \<inter> set (started_indices calls) = {}"
    unfolding si by simp_all
  have "set (sent_index (snd p)) \<inter> set (sent_indices calls) = {}"
  proof (rule equals0I)
    fix x
    assume x: "x \<in> set (sent_index (snd p)) \<inter> set (sent_indices calls)"
    with sent_index_started [OF wp] obtain a where
      a: "x = Some a" "a \<in> set (started_index (snd p))"
      by auto
    from x sent_indices_started [OF w] obtain b where
      b: "x = Some b" "b \<in> set (started_indices calls)"
      by auto
    from a b have "a \<in> set (started_index (snd p)) \<inter> set (started_indices calls)"
      by simp
    with dj show False by simp
  qed
  moreover have "distinct (sent_index (snd p))" by (simp add: sent_index_def)
  ultimately show ?case
    using Cons.IH [OF w d] unfolding sent_indices_Cons by simp
qed

lemma delta_inv_distinct: "delta_inv c calls es \<Longrightarrow> distinct (map fst (json_deltas es))"
proof -
  assume inv: "delta_inv c calls es"
  then have w: "list_all well_formed (map snd calls)"
    and s: "mset (started_indices calls) = mset [Suc 0..<Suc c]"
    and j: "mset (map fst (json_deltas es)) = mset (sent_indices calls)"
    by (simp_all add: delta_inv_def)
  from mset_eq_imp_distinct_iff [OF s] have "distinct (started_indices calls)"
    by simp
  from sent_indices_distinct [OF w this] mset_eq_imp_distinct_iff [OF j] show ?thesis
    by simp
qed

lemma handle_exception_json: "json_deltas (fst (handle_exception v e)) = []"
  by (cases "(v, e)" rule: handle_exception.cases)
    (simp_all add: json_deltas_Cons api_error_event_def cancelled_event_def)

lemma opening_json: "json_deltas (opening_events req) = []"
  by (simp add: opening_events_def json_deltas_Cons)

lemma stops_json: "json_deltas (map EVENT_CONTENT_BLOCK_STOP xs) = []"
  by (induction xs) (simp_all add: json_deltas_Cons)

lemma closing_json: "json_deltas (fst (closing_events en req st)) = []"
  by (simp add: closing_events_def Let_def tool_stops_indices stops_json json_deltas_Cons
      split: prod.splits sum.splits)

lemma convert_streaming_json:
  "run_loop v jl rid stream initial_state reg = (es, r) \<Longrightarrow>
   json_deltas (fst (convert_streaming v jl en req rid reg stream)) = json_deltas es"
proof -
  assume rl: "run_loop v jl rid stream initial_state reg = (es, r)"
  obtain le reg' where r: "r = (le, reg')" by (cases r)
  show ?thesis
  proof (cases le)
    case (Loop_Done st)
    with rl r closing_json [of en req st] show ?thesis
      by (auto simp: convert_streaming_def opening_json split: prod.splits)
  next
    case Loop_Returned
    with rl r show ?thesis
      by (simp add: convert_streaming_def opening_json)
  next
    case (Loop_Raised e)
    obtain es' g where he: "handle_exception v e = (es', g)"
      by (cases "handle_exception v e")
    with handle_exception_json [of v e] have "json_deltas es' = []" by simp
    with rl r Loop_Raised he show ?thesis
      by (simp add: convert_streaming_def opening_json)
  qed
qed

lemma convert_streaming_once:
  "distinct (map fst (json_deltas (fst (convert_streaming v jl en req rid reg stream))))"
proof -
  obtain es r where rl: "run_loop v jl rid stream initial_state reg = (es, r)"
    by (cases "run_loop v jl rid stream initial_state reg")
  have "delta_inv (tool_block_counter initial_state) (current_tool_calls initial_state) []"
    by (simp add: delta_inv_def initial_state_def started_indices_def sent_indices_def)
  from run_loop_json [OF this rl] obtain c' calls' where "delta_inv c' calls' es" by auto
  from delta_inv_distinct [OF this] convert_streaming_json [OF rl] show ?thesis by simp
qed

lemma fragment_stream_deltas:
  assumes i: "i \<noteq> []" and n: "n \<noteq> []" and f: "frags \<noteq> []"
  shows "json_deltas (fst (convert_streaming v jl en req rid reg (fragment_stream i n frags))) =
     (case first_parse jl [] frags of None \<Rightarrow> [] | Some b \<Rightarrow> [(Some 1, b)])"
proof -
  from fragment_stream_pass [OF i n f, of v jl] obtain es st where
    p: "passes v jl (fragment_stream i n frags) initial_state = Some (es, st)"
    and j: "json_deltas es =
         (case first_parse jl [] frags of None \<Rightarrow> [] | Some b \<Rightarrow> [(Some 1, b)])"
    by blast
  from run_loop_passes [OF p, of rid "[]" reg]
  have "run_loop v jl rid (fragment_stream i n frags) initial_state reg = (es, Loop_Done st, reg)"
    by simp
  from convert_streaming_json [OF this] j show ?thesis by simp
qed

text \<open>
  C2, as amended. A fragment that arrives while the block of its tool call is started
  is appended to the buffer, and the delta with the whole buffer is sent exactly when
  the buffer parses and no delta was sent before; a fragment that arrives before the
  block is started (the id or the name is not known yet) is discarded. So for a tool
  call whose first delta carries its id and name, the buffer is the concatenation of its
  fragments and one delta is sent, at the first fragment after which the buffer parses,
  with the buffer of that moment, and none if it never parses. On every stream each
  block index receives at most one input_json delta. For two fragments of which the
  first alone does not parse and both together do, the one delta carries both.
\<close>

theorem tool_arguments_delta_once:
  "(started tc \<longrightarrow>
      handle_arguments v jl \<lparr>fn_name = n0, fn_arguments = Val a\<rparr> tc =
        (if jl (args_buffer tc @ a) \<noteq> None \<and> \<not> json_sent tc
         then [EVENT_CONTENT_BLOCK_DELTA (claude_index tc)
                 (DELTA_INPUT_JSON (args_buffer tc @ a))]
         else [],
         Inr (tc\<lparr>args_buffer := args_buffer tc @ a,
                  json_sent := (json_sent tc \<or> jl (args_buffer tc @ a) \<noteq> None)\<rparr>)))
   \<and> (\<not> started tc \<longrightarrow>
        handle_arguments v jl \<lparr>fn_name = n0, fn_arguments = Val a\<rparr> tc = ([], Inr tc))
   \<and> (i \<noteq> [] \<and> n \<noteq> [] \<and> frags \<noteq> [] \<longrightarrow>
        (\<exists>es st tc'.
           passes v jl (fragment_stream i n frags) initial_state = Some (es, st)
           \<and> current_tool_calls st = [(0, tc')] \<and> args_buffer tc' = concat frags)
        \<and> json_deltas (fst (convert_streaming v jl en req rid reg (fragment_stream i n frags))) =
            (case first_parse jl [] frags of None \<Rightarrow> [] | Some b \<Rightarrow> [(Some 1, b)]))
   \<and> distinct (map fst (json_deltas (fst (convert_streaming v jl en req rid reg stream))))
   \<and> (i \<noteq> [] \<and> n \<noteq> [] \<and> jl x = None \<and> jl (x @ y) \<noteq> None \<longrightarrow>
        json_deltas (fst (convert_streaming v jl en req rid reg (fragment_stream i n [x, y]))) =
          [(Some 1, x @ y)])"
proof (intro conjI impI)
  assume "started tc"
  then show "handle_arguments v jl \<lparr>fn_name = n0, fn_arguments = Val a\<rparr> tc =
        (if jl (args_buffer tc @ a) \<noteq> None \<and> \<not> json_sent tc
         then [EVENT_CONTENT_BLOCK_DELTA (claude_index tc)
                 (DELTA_INPUT_JSON (args_buffer tc @ a))]
         else [],
         Inr (tc\<lparr>args_buffer := args_buffer tc @ a,
                  json_sent := (json_sent tc \<or> jl (args_buffer tc @ a) \<noteq> None)\<rparr>))"
    by (rule handle_arguments_started)
next
  assume "\<not> started tc"
  then show "handle_arguments v jl \<lparr>fn_name = n0, fn_arguments = Val a\<rparr> tc = ([], Inr tc)"
    by (rule handle_arguments_not_started)
next
  assume "i \<noteq> [] \<and> n \<noteq> [] \<and> frags \<noteq> []"
  then have i: "i \<noteq> []" and n: "n \<noteq> []" and f: "frags \<noteq> []" by simp_all
  from fragment_stream_pass [OF i n f, of v jl]
  show "\<exists>es st tc'.
           passes v jl (fragment_stream i n frags) initial_state = Some (es, st)
           \<and> current_tool_calls st = [(0, tc')] \<and> args_buffer tc' = concat frags"
    by blast
next
  assume "i \<noteq> [] \<and> n \<noteq> [] \<and> frags \<noteq> []"
  then have i: "i \<noteq> []" and n: "n \<noteq> []" and f: "frags \<noteq> []" by simp_all
  show "json_deltas (fst (convert_streaming v jl en req rid reg (fragment_stream i n frags))) =
            (case first_parse jl [] frags of None \<Rightarrow> [] | Some b \<Rightarrow> [(Some 1, b)])"
    by (rule fragment_stream_deltas [OF i n f])
next
  show "distinct (map fst (json_deltas (fst (convert_streaming v jl en req rid reg stream))))"
    by (rule convert_streaming_once)
next
  assume "i \<noteq> [] \<and> n \<noteq> [] \<and> jl x = None \<and> jl (x @ y) \<noteq> None"
  then have i: "i \<noteq> []" and n: "n \<noteq> []" and x: "jl x = None" and y: "jl (x @ y) \<noteq> None"
    by simp_all
  have "json_deltas (fst (convert_streaming v jl en req rid reg (fragment_stream i n [x, y]))) =
      (case first_parse jl [] [x, y] of None \<Rightarrow> [] | Some b \<Rightarrow> [(Some 1, b)])"
    by (rule fragment_stream_deltas [OF i n]) simp
  with x y show "json_deltas (fst (convert_streaming v jl en req rid reg
      (fragment_stream i n [x, y]))) = [(Some 1, x @ y)]"
    by auto
qed

theorem tool_arguments_delta_once_witness:
  \<open>json_deltas (fst (convert_streaming With_Cancellation (accepts_only ''{"a":1}'')
      config_enable_token_estimation sample_request ''req-1'' Map.empty
      (fragment_stream ''call_1'' ''get_weather'' [''{"a":1'', ''}'']))) =
     [(Some 1, ''{"a":1}'')]
   \<and> handle_arguments With_Cancellation (accepts_only ''{"a":1}'')
       \<lparr>fn_name = None, fn_arguments = Val ''}''\<rparr>
       \<lparr>tool_id = Some ''call_1'', tool_name = Some ''get_weather'', args_buffer = ''{"a":1'',
        json_sent = False, claude_index = Some 1, started = True\<rparr> =
     ([EVENT_CONTENT_BLOCK_DELTA (Some 1) (DELTA_INPUT_JSON ''{"a":1}'')],
      Inr \<lparr>tool_id = Some ''call_1'', tool_name = Some ''get_weather'',
           args_buffer = ''{"a":1}'', json_sent = True, claude_index = Some 1,
           started = True\<rparr>)\<close>
  using tool_arguments_delta_once [where v = With_Cancellation
      and jl = \<open>accepts_only ''{"a":1}''\<close> and i = "''call_1''" and n = "''get_weather''"
      and x = \<open>''{"a":1''\<close> and y = "''}''" and a = "''}''" and ?n0.0 = None
      and en = config_enable_token_estimation and req = sample_request and rid = "''req-1''" and reg = Map.empty
      and tc = \<open>\<lparr>tool_id = Some ''call_1'', tool_name = Some ''get_weather'',
        args_buffer = ''{"a":1'', json_sent = False, claude_index = Some 1, started = True\<rparr>\<close>]
  by (simp add: accepts_only_def)

theorem fragment_before_start_is_dropped:
  \<open>json_deltas (fst (convert_streaming With_Cancellation (accepts_only ''{"a":1}'')
      config_enable_token_estimation sample_request ''req-1'' Map.empty
      [Yields False (Data (tool_chunk [next_fragment ''{"a":1''])),
       Yields False (Data (tool_chunk [first_fragment ''call_1'' ''get_weather'' ''}'']))])) = []
   \<and> map_option (\<lambda>r. map (\<lambda>p. args_buffer (snd p)) (current_tool_calls (snd r)))
       (passes With_Cancellation (accepts_only ''{"a":1}'')
          [Yields False (Data (tool_chunk [next_fragment ''{"a":1''])),
           Yields False (Data (tool_chunk [first_fragment ''call_1'' ''get_weather'' ''}'']))]
          initial_state) = Some [''}'']\<close>
  by (simp add: translator_defs accepts_only_def sample_request_def json_deltas_Cons)

lemma rhe_div_le: "a div b \<le> round_half_even_div a b"
  by (simp add: round_half_even_div_def Let_def)

lemma rhe_le_Suc_div: "round_half_even_div a b \<le> Suc (a div b)"
  by (simp add: round_half_even_div_def Let_def)

lemma rhe_ge: "0 < b \<Longrightarrow> K * b \<le> a \<Longrightarrow> K \<le> round_half_even_div a b"
proof -
  assume b: "0 < b" and k: "K * b \<le> a"
  then have "K \<le> a div b" by (simp add: less_eq_div_iff_mult_less_eq)
  with rhe_div_le [of a b] show ?thesis by simp
qed

lemma rhe_lt: "0 < b \<Longrightarrow> 2 * a + b < 2 * K * b \<Longrightarrow> round_half_even_div a b < K"
proof -
  assume b: "0 < b" and h: "2 * a + b < 2 * K * b"
  define d where "d = a div b"
  define r where "r = a mod b"
  define X where "X = d * b"
  define Y where "Y = K * b"
  have a: "a = X + r" by (simp add: d_def r_def X_def)
  from h have h': "2 * a + b < 2 * Y" by (simp add: Y_def)
  show ?thesis
  proof (cases "2 * r < b")
    case True
    then have e: "round_half_even_div a b = d"
      by (simp add: round_half_even_div_def Let_def d_def r_def)
    from h' a have "X < Y" by linarith
    then have "d < K" by (simp add: X_def Y_def)
    with e show ?thesis by simp
  next
    case False
    have s: "Suc d * b = X + b" by (simp add: X_def)
    from h' a False have "X + b < Y" by linarith
    then have "Suc d * b < K * b" by (simp only: s Y_def)
    then have "Suc d < K" by (simp only: mult_less_cancel2)
    with rhe_le_Suc_div [of a b] show ?thesis by (simp add: d_def)
  qed
qed

lemma rhe_ge_half: "0 < b \<Longrightarrow> 2 * K * b < 2 * a + b \<Longrightarrow> K \<le> round_half_even_div a b"
proof -
  assume b: "0 < b" and h: "2 * K * b < 2 * a + b"
  define d where "d = a div b"
  define r where "r = a mod b"
  define X where "X = d * b"
  define Y where "Y = K * b"
  have a: "a = X + r" by (simp add: d_def r_def X_def)
  have rb: "r < b" using b by (simp add: r_def)
  from h have h': "2 * Y < 2 * a + b" by (simp add: Y_def)
  show ?thesis
  proof (cases "b < 2 * r")
    case True
    then have e: "round_half_even_div a b = Suc d"
      by (simp add: round_half_even_div_def Let_def d_def r_def)
    have s: "Suc (Suc d) * b = X + b + b" by (simp add: X_def)
    from h' a rb have "Y < X + b + b" by linarith
    then have "K * b < Suc (Suc d) * b" by (simp only: s Y_def)
    then have "K < Suc (Suc d)" by (simp only: mult_less_cancel2)
    with e show ?thesis by simp
  next
    case False
    have s: "Suc d * b = X + b" by (simp add: X_def)
    from h' a False have "Y < X + b" by linarith
    then have "K * b < Suc d * b" by (simp only: s Y_def)
    then have "K < Suc d" by (simp only: mult_less_cancel2)
    with rhe_div_le [of a b] show ?thesis by (simp add: d_def)
  qed
qed

lemma rhe_le: "0 < b \<Longrightarrow> a \<le> K * b \<Longrightarrow> round_half_even_div a b \<le> K"
proof -
  assume b: "0 < b" and h: "a \<le> K * b"
  define d where "d = a div b"
  define r where "r = a mod b"
  define X where "X = d * b"
  define Y where "Y = K * b"
  have a: "a = X + r" by (simp add: d_def r_def X_def)
  from h have h': "a \<le> Y" by (simp add: Y_def)
  show ?thesis
  proof (cases "r = 0")
    case True
    then have e: "round_half_even_div a b = d"
      using b by (simp add: round_half_even_div_def Let_def d_def r_def)
    from h' a have "X \<le> Y" by linarith
    then have "d * b \<le> K * b" by (simp only: X_def Y_def)
    with b have "d \<le> K" by simp
    with e show ?thesis by simp
  next
    case False
    with h' a have "X < Y" by linarith
    then have "d * b < K * b" by (simp only: X_def Y_def)
    then have "d < K" by simp
    with rhe_le_Suc_div [of a b] show ?thesis by (simp add: d_def)
  qed
qed

lemma rhe_one [simp]: "round_half_even_div a (Suc 0) = a"
  by (simp add: round_half_even_div_def)

lemma bit_length_lt: "n < 2 ^ bit_length n"
proof (induction n rule: bit_length.induct)
  case (1 n)
  show ?case
  proof (cases "n = 0")
    case True
    then show ?thesis by (simp add: bit_length_0)
  next
    case False
    then have bl: "bit_length n = Suc (bit_length (n div 2))"
      by (simp add: bit_length_pos)
    from 1 [OF False] have "n div 2 < 2 ^ bit_length (n div 2)" .
    then have "n < 2 * 2 ^ bit_length (n div 2)" by simp
    with bl show ?thesis by simp
  qed
qed

lemma bit_length_ge: "0 < n \<Longrightarrow> 2 ^ (bit_length n - 1) \<le> n"
proof (induction n rule: bit_length.induct)
  case (1 n)
  from 1(2) have n: "n \<noteq> 0" by simp
  then have bl: "bit_length n = Suc (bit_length (n div 2))"
    by (simp add: bit_length_pos)
  show ?case
  proof (cases "n div 2 = 0")
    case True
    with bl 1(2) show ?thesis by (simp add: bit_length_0)
  next
    case False
    then have p: "0 < n div 2" by simp
    from 1(1) [OF n p] have ih: "2 ^ (bit_length (n div 2) - 1) \<le> n div 2" .
    from p have "bit_length (n div 2) = Suc (bit_length (n div 2) - 1)"
      by (simp add: bit_length_pos)
    then have "(2::nat) ^ bit_length (n div 2) = 2 * 2 ^ (bit_length (n div 2) - 1)"
      by (metis power_Suc)
    with ih have "2 ^ bit_length (n div 2) \<le> 2 * (n div 2)" by simp
    also have "\<dots> \<le> n" by simp
    finally show ?thesis by (simp add: bl)
  qed
qed

lemma bit_length_unique: "2 ^ k \<le> n \<Longrightarrow> n < 2 ^ Suc k \<Longrightarrow> bit_length n = Suc k"
proof -
  assume lo: "2 ^ k \<le> n" and hi: "n < 2 ^ Suc k"
  from lo have n: "0 < n" by (metis zero_less_numeral zero_less_power less_le_trans)
  from bit_length_ge [OF n] hi have l1: "(2::nat) ^ (bit_length n - 1) < 2 ^ Suc k"
    by (rule le_less_trans)
  have a: "bit_length n - 1 < Suc k"
    by (rule power_less_imp_less_exp [OF _ l1]) simp
  from lo bit_length_lt [of n] have l2: "(2::nat) ^ k < 2 ^ bit_length n"
    by (rule le_less_trans)
  have b: "k < bit_length n"
    by (rule power_less_imp_less_exp [OF _ l2]) simp
  from a b show ?thesis by simp
qed

lemma bit_length_mono: "m \<le> n \<Longrightarrow> bit_length m \<le> bit_length n"
proof (cases "m = 0")
  case True
  then show ?thesis by (simp add: bit_length_0)
next
  case False
  assume mn: "m \<le> n"
  from False have m: "0 < m" by simp
  from bit_length_ge [OF m] mn have "(2::nat) ^ (bit_length m - 1) \<le> n"
    by (rule le_trans)
  from this bit_length_lt [of n] have l: "(2::nat) ^ (bit_length m - 1) < 2 ^ bit_length n"
    by (rule le_less_trans)
  have "bit_length m - 1 < bit_length n"
    by (rule power_less_imp_less_exp [OF _ l]) simp
  then show ?thesis by simp
qed

lemma bit_length_pos_iff: "0 < n \<Longrightarrow> 0 < bit_length n"
  by (simp add: bit_length_pos)

lemma rhe_div_pow:
  assumes M: "0 < M" and W: "0 < W"
    and lo: "K * M \<le> n * c"
    and hi: "n * c + g \<le> Suc K * M"
    and gw: "M < 2 * W * g"
  shows "round_half_even_div (n * c * W) M div W = K"
proof -
  define A where "A = n * c * W"
  define B where "B = Suc K * M * W"
  define G where "G = g * W"
  from lo have "K * M * W \<le> n * c * W" by (rule mult_le_mono1)
  then have "(K * W) * M \<le> A" by (simp add: A_def ac_simps)
  from rhe_ge [OF M this] have l: "W * K \<le> round_half_even_div A M"
    by (simp add: ac_simps)
  from hi have "(n * c + g) * W \<le> Suc K * M * W" by (rule mult_le_mono1)
  then have h: "A + G \<le> B" by (simp add: A_def B_def G_def add_mult_distrib)
  from gw have g: "M < 2 * G" by (simp add: G_def ac_simps)
  from h g have "2 * A + M < 2 * B" by linarith
  moreover have "2 * B = 2 * (Suc K * W) * M" by (simp only: B_def mult_ac)
  ultimately have "2 * A + M < 2 * (Suc K * W) * M" by simp
  from rhe_lt [OF M this] have u: "round_half_even_div A M < W * Suc K"
    by (simp add: ac_simps)
  from l u have "round_half_even_div A M div W = K" by (rule div_nat_eqI)
  then show ?thesis by (simp add: A_def)
qed

lemma int_of_float_shift: "int_of_float (Double m (- int w)) = int (m div 2 ^ w)"
proof -
  have "real_value (Double m (- int w)) = of_nat m / of_nat (2 ^ w)"
    by (simp add: power_int_minus field_simps)
  then show ?thesis
    unfolding int_of_float_def by (simp only: floor_divide_of_nat_eq)
qed

lemma bit_length_le: "n < 2 ^ k \<Longrightarrow> bit_length n \<le> k"
proof (cases "n = 0")
  case True
  then show ?thesis by (simp add: bit_length_0)
next
  case False
  assume h: "n < 2 ^ k"
  from False have n: "0 < n" by simp
  from bit_length_ge [OF n] h have l: "(2::nat) ^ (bit_length n - 1) < 2 ^ k"
    by (rule le_less_trans)
  have "bit_length n - 1 < k"
    by (rule power_less_imp_less_exp [OF _ l]) simp
  then show ?thesis by simp
qed

lemma bit_length_1: "bit_length 1 = 1" "bit_length (Suc 0) = Suc 0"
  by (simp_all add: bit_length_pos bit_length_0)

lemma float_of_nat_value:
  assumes n: "0 < n" and h: "n < 2 ^ 53"
  shows "float_of_nat n = Double (n * 2 ^ (53 - bit_length n)) (int (bit_length n) - 53)"
proof -
  define k where "k = bit_length n - 1"
  from n have b: "bit_length n = Suc k" by (simp add: k_def bit_length_pos)
  from bit_length_le [OF h] b have k: "k \<le> 52" by simp
  from bit_length_ge [OF n] have "2 ^ k \<le> n" by (simp add: k_def)
  then have "(of_nat (2 ^ k) :: rat) \<le> of_nat n" by (simp only: of_nat_le_iff)
  then have c: "(2::rat) ^ k \<le> of_nat n" by simp
  have c': "(2::rat) powi (int (Suc k) - 1) \<le> of_nat n"
  proof -
    have "int (Suc k) - 1 = int k" by simp
    with c show ?thesis by (simp only: power_int_of_nat)
  qed
  have s: "52 - (int (Suc k) - 1) = int (52 - k)" using k by simp
  have e: "- int (52 - k) = int (Suc k) - 53" using k by simp
  from n have n0: "n \<noteq> 0" by simp
  have "float_quot n 1 = Double (n * 2 ^ (52 - k)) (int (Suc k) - 53)"
    using c n0 k by (simp add: float_quot_def b bit_length_1 Let_def)
  then show ?thesis
    by (simp add: float_of_nat_def b)
qed

lemma float_quot_normal:
  assumes p: "2 ^ 52 \<le> p" "p < 2 ^ 53" and q: "2 ^ 52 \<le> q" "q < 2 ^ 53"
  shows "float_quot p q =
     (if q \<le> p then Double (round_half_even_div (p * 2 ^ 52) q) (- 52)
      else Double (round_half_even_div (p * 2 ^ 53) q) (- 53))"
proof -
  have bp: "bit_length p = 53" using bit_length_unique [of 52 p] p by simp
  have bq: "bit_length q = 53" using bit_length_unique [of 52 q] q by simp
  from p have p0: "p \<noteq> 0" by auto
  show ?thesis
    unfolding float_quot_def bp bq
    using p0 by (simp add: Let_def)
qed

lemma truediv_floor:
  assumes n: "0 < n" and h: "n < 2 ^ 49" and M: "2 ^ 52 \<le> M" "M < 2 ^ 53" and E: "E \<le> 52"
  shows "\<exists>w. 4 \<le> w \<and>
     int_of_float (float_truediv (float_of_nat n) (Double M (- int E))) =
       int (round_half_even_div (n * 2 ^ E * 2 ^ w) M div 2 ^ w)"
proof -
  define b where "b = bit_length n"
  from n have b1: "1 \<le> b" by (simp add: b_def bit_length_pos)
  from bit_length_le [OF h] have b49: "b \<le> 49" by (simp add: b_def)
  define P where "P = n * 2 ^ (53 - b)"
  have "n < 2 ^ 53"
    using h by (rule less_le_trans) simp
  from float_of_nat_value [OF n this]
  have fn: "float_of_nat n = Double P (int b - 53)" by (simp add: P_def b_def)
  have Plo: "2 ^ 52 \<le> P"
  proof -
    from bit_length_ge [OF n] have "2 ^ (b - 1) * 2 ^ (53 - b) \<le> n * 2 ^ (53 - b)"
      unfolding b_def by (rule mult_le_mono1)
    moreover have "(b - 1) + (53 - b) = 52" using b1 b49 by simp
    then have "(2::nat) ^ (b - 1) * 2 ^ (53 - b) = 2 ^ 52"
      by (simp only: power_add [symmetric])
    ultimately show ?thesis by (simp only: P_def)
  qed
  have Phi: "P < 2 ^ 53"
  proof -
    from bit_length_lt [of n] have "n * 2 ^ (53 - b) < 2 ^ b * 2 ^ (53 - b)"
      unfolding b_def by (simp only: mult_less_cancel2) simp
    moreover have "b + (53 - b) = 53" using b49 by simp
    then have "(2::nat) ^ b * 2 ^ (53 - b) = 2 ^ 53"
      by (simp only: power_add [symmetric])
    ultimately show ?thesis by (simp only: P_def)
  qed
  note fq = float_quot_normal [OF Plo Phi M]
  show ?thesis
  proof (cases "M \<le> P")
    case True
    define w where "w = 105 - b - E"
    have w4: "4 \<le> w" using b49 E by (simp add: w_def)
    have ex: "- 52 + (int b - 53) - (- int E) = - int w" using b49 E by (simp add: w_def)
    have "(53 - b) + 52 = E + w" using b49 E by (simp add: w_def)
    then have "(2::nat) ^ (53 - b) * 2 ^ 52 = 2 ^ E * 2 ^ w"
      by (simp only: power_add [symmetric])
    then have pw: "P * 2 ^ 52 = n * 2 ^ E * 2 ^ w"
      by (simp only: P_def mult.assoc)
    from fq True have "float_quot P M = Double (round_half_even_div (P * 2 ^ 52) M) (- 52)"
      by (simp only: if_True)
    then have "float_truediv (float_of_nat n) (Double M (- int E)) =
        Double (round_half_even_div (n * 2 ^ E * 2 ^ w) M) (- int w)"
      by (simp only: fn float_truediv.simps double.case pw ex)
    then have "int_of_float (float_truediv (float_of_nat n) (Double M (- int E))) =
       int (round_half_even_div (n * 2 ^ E * 2 ^ w) M div 2 ^ w)"
      by (simp only: int_of_float_shift)
    with w4 show ?thesis by blast
  next
    case False
    define w where "w = 106 - b - E"
    have w4: "4 \<le> w" using b49 E by (simp add: w_def)
    have ex: "- 53 + (int b - 53) - (- int E) = - int w" using b49 E by (simp add: w_def)
    have "(53 - b) + 53 = E + w" using b49 E by (simp add: w_def)
    then have "(2::nat) ^ (53 - b) * 2 ^ 53 = 2 ^ E * 2 ^ w"
      by (simp only: power_add [symmetric])
    then have pw: "P * 2 ^ 53 = n * 2 ^ E * 2 ^ w"
      by (simp only: P_def mult.assoc)
    from fq False have "float_quot P M = Double (round_half_even_div (P * 2 ^ 53) M) (- 53)"
      by (simp only: if_False)
    then have "float_truediv (float_of_nat n) (Double M (- int E)) =
        Double (round_half_even_div (n * 2 ^ E * 2 ^ w) M) (- int w)"
      by (simp only: fn float_truediv.simps double.case pw ex)
    then have "int_of_float (float_truediv (float_of_nat n) (Double M (- int E))) =
       int (round_half_even_div (n * 2 ^ E * 2 ^ w) M div 2 ^ w)"
      by (simp only: int_of_float_shift)
    with w4 show ?thesis by blast
  qed
qed

lemma pow_ge_16: "4 \<le> w \<Longrightarrow> (16::nat) \<le> 2 ^ w"
  using power_increasing [of 4 w "2::nat"] by simp

lemma truediv_english:
  assumes n: "0 < n" and h: "n < 2 ^ 49"
  shows "int_of_float (float_truediv (float_of_nat n) ENGLISH_CHAR_PER_TOKEN) = int (n div 4)"
proof -
  from truediv_floor [OF n h, of 4503599627370496 50] obtain w where w: "4 \<le> w"
    and v: "int_of_float (float_truediv (float_of_nat n) ENGLISH_CHAR_PER_TOKEN) =
       int (round_half_even_div (n * 2 ^ 50 * 2 ^ w) 4503599627370496 div 2 ^ w)"
    unfolding ENGLISH_value by auto
  define K where "K = n div 4"
  define W :: nat where "W = 2 ^ w"
  from pow_ge_16 [OF w] have W: "16 \<le> W" by (simp add: W_def)
  have k: "4 * K \<le> n" "n < 4 * K + 4" by (simp_all add: K_def)
  have "round_half_even_div (n * 2 ^ 50 * W) 4503599627370496 div W = K"
  proof (rule rhe_div_pow [where g = "2 ^ 50"])
    show "0 < (4503599627370496::nat)" by simp
    show "0 < W" using W by simp
    show "K * 4503599627370496 \<le> n * 2 ^ 50" using k by simp
    show "n * 2 ^ 50 + 2 ^ 50 \<le> Suc K * 4503599627370496" using k by simp
    show "4503599627370496 < 2 * W * 2 ^ 50" using W by simp
  qed
  with v show ?thesis by (simp add: W_def K_def)
qed

lemma truediv_mixed:
  assumes n: "0 < n" and h: "n < 2 ^ 49"
  shows "int_of_float (float_truediv (float_of_nat n) MIXED_CHAR_PER_TOKEN) = int (2 * n div 5)"
proof -
  from truediv_floor [OF n h, of 5629499534213120 51] obtain w where w: "4 \<le> w"
    and v: "int_of_float (float_truediv (float_of_nat n) MIXED_CHAR_PER_TOKEN) =
       int (round_half_even_div (n * 2 ^ 51 * 2 ^ w) 5629499534213120 div 2 ^ w)"
    unfolding MIXED_value by auto
  define K where "K = 2 * n div 5"
  define W :: nat where "W = 2 ^ w"
  from pow_ge_16 [OF w] have W: "16 \<le> W" by (simp add: W_def)
  have k: "5 * K \<le> 2 * n" "2 * n < 5 * K + 5" unfolding K_def by arith+
  have "round_half_even_div (n * 2 ^ 51 * W) 5629499534213120 div W = K"
  proof (rule rhe_div_pow [where g = "2 ^ 50"])
    show "0 < (5629499534213120::nat)" by simp
    show "0 < W" using W by simp
    show "K * 5629499534213120 \<le> n * 2 ^ 51" using k by simp
    show "n * 2 ^ 51 + 2 ^ 50 \<le> Suc K * 5629499534213120" using k by simp
    show "5629499534213120 < 2 * W * 2 ^ 50" using W by simp
  qed
  with v show ?thesis by (simp add: W_def K_def)
qed

lemma truediv_chinese:
  assumes n: "0 < n" and h: "n < 2 ^ 49"
  shows "int_of_float (float_truediv (float_of_nat n) CHINESE_CHAR_PER_TOKEN) = int (5 * n div 6)"
proof -
  from truediv_floor [OF n h, of 5404319552844595 52] obtain w where w: "4 \<le> w"
    and v: "int_of_float (float_truediv (float_of_nat n) CHINESE_CHAR_PER_TOKEN) =
       int (round_half_even_div (n * 2 ^ 52 * 2 ^ w) 5404319552844595 div 2 ^ w)"
    unfolding CHINESE_value by auto
  define K where "K = 5 * n div 6"
  define W :: nat where "W = 2 ^ w"
  from pow_ge_16 [OF w] have W: "16 \<le> W" by (simp add: W_def)
  have k: "6 * K \<le> 5 * n" "5 * n < 6 * K + 6" unfolding K_def by arith+
  from h have h': "n < 562949953421312" by simp
  have "round_half_even_div (n * 2 ^ 52 * W) 5404319552844595 div W = K"
  proof (rule rhe_div_pow [where g = "800000000000000"])
    show "0 < (5404319552844595::nat)" by simp
    show "0 < W" using W by simp
    show "K * 5404319552844595 \<le> n * 2 ^ 52" using k by simp
    show "n * 2 ^ 52 + 800000000000000 \<le> Suc K * 5404319552844595" using k h' by simp
    show "5404319552844595 < 2 * W * 800000000000000" using W by simp
  qed
  with v show ?thesis by (simp add: W_def K_def)
qed

lemma real_value_shift: "real_value (Double a (- int x)) = of_nat a / 2 ^ x"
  by (simp add: power_int_minus field_simps)

lemma real_value_less:
  "(real_value (Double a (- int x)) < real_value (Double b (- int y))) = (a * 2 ^ y < b * 2 ^ x)"
proof -
  have "((of_nat a :: rat) / 2 ^ x < of_nat b / 2 ^ y) =
        ((of_nat a :: rat) * 2 ^ y < of_nat b * 2 ^ x)"
    by (simp add: field_simps)
  also have "\<dots> = ((of_nat (a * 2 ^ y) :: rat) < of_nat (b * 2 ^ x))"
    by simp
  also have "\<dots> = (a * 2 ^ y < b * 2 ^ x)"
    by (simp only: of_nat_less_iff)
  finally show ?thesis by (simp only: real_value_shift)
qed

lemma float_quot_le_one:
  assumes p: "0 < p" and pq: "p \<le> q"
  shows "\<exists>j. q \<le> p * 2 ^ j \<and> p * 2 ^ j < 2 * q
     \<and> float_quot p q = Double (round_half_even_div (p * 2 ^ (52 + j)) q) (- int (52 + j))"
proof -
  define k where "k = bit_length q - bit_length p"
  from bit_length_mono [OF pq] have kk: "bit_length q = bit_length p + k"
    by (simp add: k_def)
  from p pq have q: "0 < q" by simp
  have d: "int (bit_length p) - int (bit_length q) = - int k"
    by (simp add: kk)
  have "((of_nat q :: rat) \<le> of_nat (p * 2 ^ k)) = (q \<le> p * 2 ^ k)"
    by (simp only: of_nat_le_iff)
  then have cond: "((2::rat) powi (- int k) * of_nat q \<le> of_nat p) = (q \<le> p * 2 ^ k)"
    by (simp add: power_int_minus field_simps)
  from p have bp: "bit_length p = Suc (bit_length p - 1)" by (simp add: bit_length_pos)
  from q have bq: "bit_length q = Suc (bit_length q - 1)" by (simp add: bit_length_pos)
  from p have p0: "p \<noteq> 0" by simp
  show ?thesis
  proof (cases "q \<le> p * 2 ^ k")
    case True
    have "p * 2 ^ k < 2 ^ bit_length p * 2 ^ k"
      using bit_length_lt [of p] by simp
    also have "\<dots> = 2 ^ bit_length q" by (simp only: kk power_add)
    also have "\<dots> = 2 * 2 ^ (bit_length q - 1)" by (subst bq) simp
    also have "\<dots> \<le> 2 * q" using bit_length_ge [OF q] by simp
    finally have u: "p * 2 ^ k < 2 * q" .
    have s: "52 - (- int k) = int (52 + k)" by simp
    have "float_quot p q =
        Double (round_half_even_div (p * 2 ^ (52 + k)) q) (- int (52 + k))"
      unfolding float_quot_def d
      using p0 True by (simp only: Let_def cond if_True if_False s nat_int of_nat_0_le_iff)
    with True u show ?thesis by blast
  next
    case False
    then have u: "p * 2 ^ Suc k < 2 * q" by simp
    have "q < 2 ^ bit_length q" by (rule bit_length_lt)
    also have "\<dots> = 2 ^ (bit_length p - 1) * 2 ^ Suc k"
    proof -
      have "bit_length p + k = (bit_length p - 1) + Suc k" using bp by simp
      then show ?thesis by (simp only: kk power_add [symmetric])
    qed
    also have "\<dots> \<le> p * 2 ^ Suc k"
      using bit_length_ge [OF p] by (rule mult_le_mono1)
    finally have l: "q \<le> p * 2 ^ Suc k" by simp
    have s: "52 - (- int k - 1) = int (52 + Suc k)" by simp
    have "float_quot p q =
        Double (round_half_even_div (p * 2 ^ (52 + Suc k)) q) (- int (52 + Suc k))"
      unfolding float_quot_def d
      using p0 False by (simp only: Let_def cond if_True if_False s nat_int of_nat_0_le_iff)
    with l u show ?thesis by blast
  qed
qed

lemma ratio_parts:
  assumes c: "0 < c" and ct: "c \<le> t"
  obtains j m where "t \<le> c * 2 ^ j" "c * 2 ^ j < 2 * t"
    "float_quot c t = Double m (- int (52 + j))"
    "m = round_half_even_div (c * 2 ^ 52 * 2 ^ j) t"
    "2 ^ 52 \<le> m" "m \<le> 2 ^ 53"
proof -
  from float_quot_le_one [OF c ct] obtain j where lo: "t \<le> c * 2 ^ j"
    and hi: "c * 2 ^ j < 2 * t"
    and fq: "float_quot c t =
       Double (round_half_even_div (c * 2 ^ (52 + j)) t) (- int (52 + j))"
    by blast
  define m where "m = round_half_even_div (c * 2 ^ 52 * 2 ^ j) t"
  have e: "c * 2 ^ (52 + j) = c * 2 ^ 52 * 2 ^ j" by (simp only: power_add mult.assoc)
  from c ct have t: "0 < t" by simp
  have a: "c * 2 ^ 52 * 2 ^ j = 2 ^ 52 * (c * 2 ^ j)" by (simp only: mult_ac)
  from lo have "2 ^ 52 * t \<le> 2 ^ 52 * (c * 2 ^ j)" by (rule mult_le_mono2)
  then have "2 ^ 52 * t \<le> c * 2 ^ 52 * 2 ^ j" by (simp only: a)
  from rhe_ge [OF t this] have m1: "2 ^ 52 \<le> m" by (simp only: m_def)
  from hi have "2 ^ 52 * (c * 2 ^ j) \<le> 2 ^ 52 * (2 * t)" by simp
  then have "c * 2 ^ 52 * 2 ^ j \<le> 2 ^ 53 * t" by (simp only: a) simp
  from rhe_le [OF t this] have m2: "m \<le> 2 ^ 53" by (simp only: m_def)
  from fq have "float_quot c t = Double m (- int (52 + j))" by (simp only: e m_def)
  from that [OF lo hi this m_def m1 m2] show thesis .
qed

lemma pow_ge_4: "2 \<le> j \<Longrightarrow> (4::nat) \<le> 2 ^ j"
  using power_increasing [of 2 j "2::nat"] by simp

lemma pow_ge_32: "5 \<le> j \<Longrightarrow> (32::nat) \<le> 2 ^ j"
  using power_increasing [of 5 j "2::nat"] by simp

lemma pow_le_8: "j \<le> 3 \<Longrightarrow> (2::nat) ^ j \<le> 8"
  using power_increasing [of j 3 "2::nat"] by simp

lemma ratio_gt_0_7:
  assumes t: "0 < t" and ct: "c \<le> t" and h: "t < 2 ^ 49"
  shows "(real_value literal_0_7 < real_value (float_quot c t)) = (7 * t < 10 * c)"
proof (cases "c = 0")
  case True
  have "real_value (float_quot 0 t) = 0" by (simp add: float_quot_def)
  moreover have "0 < real_value literal_0_7" by (simp add: literal_0_7_value)
  ultimately show ?thesis using True by simp
next
  case False
  then have c: "0 < c" by simp
  from h have h': "t < 562949953421312" by simp
  from ratio_parts [OF c ct] obtain j m where lo: "t \<le> c * 2 ^ j"
    and hi: "c * 2 ^ j < 2 * t"
    and fq: "float_quot c t = Double m (- int (52 + j))"
    and m: "m = round_half_even_div (c * 2 ^ 52 * 2 ^ j) t"
    and m1: "2 ^ 52 \<le> m" and m2: "m \<le> 2 ^ 53"
    by blast
  have l7: "literal_0_7 = Double 6305039478318694 (- int 53)"
    by (simp add: literal_0_7_value)
  have cmp: "(real_value literal_0_7 < real_value (float_quot c t)) =
      (6305039478318694 * 2 ^ j < 2 * m)"
  proof -
    have "(6305039478318694 * 2 ^ (52 + j) < m * 2 ^ 53) =
          (2 ^ 52 * (6305039478318694 * 2 ^ j) < 2 ^ 52 * (2 * m))"
      by (simp add: power_add mult_ac)
    also have "\<dots> = (6305039478318694 * 2 ^ j < 2 * m)"
      by (simp only: mult_less_cancel1) simp
    finally show ?thesis
      by (simp only: fq l7 real_value_less)
  qed
  define W :: nat where "W = 2 ^ j"
  define X where "X = c * W"
  note lo' = lo [folded W_def, folded X_def] and hi' = hi [folded W_def, folded X_def]
  consider "j = 0" | "j = 1" | "2 \<le> j" by linarith
  then show ?thesis
  proof cases
    case 1
    with lo ct have "c = t" by simp
    with t m1 show ?thesis unfolding cmp 1 by simp
  next
    case 2
    have m': "m = round_half_even_div (c * 2 ^ 53) t"
      unfolding m 2 by (simp add: mult.commute)
    show ?thesis
    proof (cases "7 * t < 10 * c")
      case True
      have "6305039478318695 * t \<le> c * 2 ^ 53" using True h' by simp
      from rhe_ge [OF t this] have "6305039478318695 \<le> m" by (simp only: m')
      with True show ?thesis unfolding cmp 2 by simp
    next
      case False
      have "2 * (c * 2 ^ 53) + t < 2 * 6305039478318695 * t" using False t by simp
      from rhe_lt [OF t this] have "m < 6305039478318695" by (simp only: m')
      with False show ?thesis unfolding cmp 2 by simp
    qed
  next
    case 3
    from pow_ge_4 [OF 3] have W4: "4 \<le> W" by (simp add: W_def)
    then have "4 * c \<le> X" by (simp add: X_def)
    with hi' have r: "\<not> 7 * t < 10 * c" by linarith
    from W4 have "6305039478318694 * 4 \<le> 6305039478318694 * W" by simp
    with m2 have "\<not> 6305039478318694 * W < 2 * m" by simp
    with r show ?thesis unfolding cmp W_def by simp
  qed
qed

lemma ratio_lt_0_1:
  assumes t: "0 < t" and ct: "c \<le> t" and h: "t < 2 ^ 49"
  shows "(real_value (float_quot c t) < real_value literal_0_1) = (10 * c < t)"
proof (cases "c = 0")
  case True
  have "real_value (float_quot 0 t) = 0" by (simp add: float_quot_def)
  moreover have "0 < real_value literal_0_1" by (simp add: literal_0_1_value)
  ultimately show ?thesis using True t by simp
next
  case False
  then have c: "0 < c" by simp
  from h have h': "t < 562949953421312" by simp
  from ratio_parts [OF c ct] obtain j m where lo: "t \<le> c * 2 ^ j"
    and hi: "c * 2 ^ j < 2 * t"
    and fq: "float_quot c t = Double m (- int (52 + j))"
    and m: "m = round_half_even_div (c * 2 ^ 52 * 2 ^ j) t"
    and m1: "2 ^ 52 \<le> m" and m2: "m \<le> 2 ^ 53"
    by blast
  have l1: "literal_0_1 = Double 7205759403792794 (- int 56)"
    by (simp add: literal_0_1_value)
  have cmp: "(real_value (float_quot c t) < real_value literal_0_1) =
      (16 * m < 7205759403792794 * 2 ^ j)"
  proof -
    have "(m * 2 ^ 56 < 7205759403792794 * 2 ^ (52 + j)) =
          (2 ^ 52 * (16 * m) < 2 ^ 52 * (7205759403792794 * 2 ^ j))"
      by (simp add: power_add mult_ac)
    also have "\<dots> = (16 * m < 7205759403792794 * 2 ^ j)"
      by (simp only: mult_less_cancel1) simp
    finally show ?thesis
      by (simp only: fq l1 real_value_less)
  qed
  define W :: nat where "W = 2 ^ j"
  define X where "X = c * W"
  note lo' = lo [folded W_def, folded X_def] and hi' = hi [folded W_def, folded X_def]
  consider "j \<le> 3" | "j = 4" | "5 \<le> j" by linarith
  then show ?thesis
  proof cases
    case 1
    from pow_le_8 [OF 1] have W8: "W \<le> 8" by (simp add: W_def)
    then have "X \<le> 8 * c" by (simp add: X_def)
    with lo' c have r: "\<not> 10 * c < t" by linarith
    from W8 have "7205759403792794 * W \<le> 7205759403792794 * 8" by simp
    with m1 have "\<not> 16 * m < 7205759403792794 * W" by simp
    with r show ?thesis unfolding cmp W_def by simp
  next
    case 2
    have m': "m = round_half_even_div (c * 2 ^ 56) t"
      unfolding m 2 by (simp add: mult.commute)
    show ?thesis
    proof (cases "10 * c < t")
      case True
      have "2 * (c * 2 ^ 56) + t < 2 * 7205759403792794 * t" using True h' by simp
      from rhe_lt [OF t this] have "m < 7205759403792794" by (simp only: m')
      with True show ?thesis unfolding cmp 2 by simp
    next
      case False
      have "2 * 7205759403792794 * t < 2 * (c * 2 ^ 56) + t" using False t by simp
      from rhe_ge_half [OF t this] have "7205759403792794 \<le> m" by (simp only: m')
      with False show ?thesis unfolding cmp 2 by simp
    qed
  next
    case 3
    from pow_ge_32 [OF 3] have W32: "32 \<le> W" by (simp add: W_def)
    then have "32 * c \<le> X" by (simp add: X_def)
    with hi' have r: "10 * c < t" by linarith
    from W32 have "7205759403792794 * 32 \<le> 7205759403792794 * W" by simp
    with m2 have "16 * m < 7205759403792794 * W" by simp
    with r show ?thesis unfolding cmp W_def by simp
  qed
qed

lemma estimate_counts_value:
  assumes t: "0 < t" and ct: "c \<le> t" and h: "t < 2 ^ 49"
  shows "estimate_counts c t =
     max 1 (int (if 7 * t < 10 * c then 5 * t div 6
                 else if 10 * c < t then t div 4 else 2 * t div 5))"
  using t
  by (simp add: estimate_counts_def Let_def ratio_gt_0_7 [OF t ct h] ratio_lt_0_1 [OF t ct h]
      truediv_chinese [OF t h] truediv_english [OF t h] truediv_mixed [OF t h])

lemma spec_estimate_value:
  assumes t: "text \<noteq> []"
  shows "spec_estimate text =
     max 1 (int (if 7 * length text < 10 * length (filter is_cjk text) then 5 * length text div 6
                 else if 10 * length (filter is_cjk text) < length text then length text div 4
                 else 2 * length text div 5))"
proof -
  define n where "n = length text"
  define c where "c = length (filter is_cjk text)"
  from t have n: "0 < n" by (simp add: n_def)
  have g: "((7::rat) / 10 < of_nat c / of_nat n) = (7 * n < 10 * c)"
  proof -
    have "((7::rat) / 10 < of_nat c / of_nat n) = ((of_nat (7 * n) :: rat) < of_nat (10 * c))"
      using n by (simp add: field_simps)
    then show ?thesis by (simp only: of_nat_less_iff)
  qed
  have l: "((of_nat c :: rat) / of_nat n < 1 / 10) = (10 * c < n)"
  proof -
    have "((of_nat c :: rat) / of_nat n < 1 / 10) = ((of_nat (10 * c) :: rat) < of_nat n)"
      using n by (simp add: field_simps)
    then show ?thesis by (simp only: of_nat_less_iff)
  qed
  have f1: "\<lfloor>(of_nat n :: rat) / (12 / 10)\<rfloor> = int (5 * n div 6)"
  proof -
    have "(of_nat n :: rat) / (12 / 10) = of_nat (5 * n) / of_nat 6" by simp
    then show ?thesis by (simp only: floor_divide_of_nat_eq)
  qed
  have f2: "\<lfloor>(of_nat n :: rat) / 4\<rfloor> = int (n div 4)"
  proof -
    have "(of_nat n :: rat) / 4 = of_nat n / of_nat 4" by simp
    then show ?thesis by (simp only: floor_divide_of_nat_eq)
  qed
  have f3: "\<lfloor>(of_nat n :: rat) / (25 / 10)\<rfloor> = int (2 * n div 5)"
  proof -
    have "(of_nat n :: rat) / (25 / 10) = of_nat (2 * n) / of_nat 5" by simp
    then show ?thesis by (simp only: floor_divide_of_nat_eq)
  qed
  have fr: "cjk_fraction text = of_nat c / of_nat n"
    by (simp only: cjk_fraction_def n_def c_def)
  have sd: "spec_divisor text =
      (if 7 * n < 10 * c then 12 / 10 else if 10 * c < n then 4 else 25 / 10)"
    unfolding spec_divisor_def fr by (simp only: g l)
  have fl: "\<lfloor>(of_nat n :: rat) / spec_divisor text\<rfloor> =
      int (if 7 * n < 10 * c then 5 * n div 6 else if 10 * c < n then n div 4 else 2 * n div 5)"
    unfolding sd
    by (cases "7 * n < 10 * c"; cases "10 * c < n") (simp_all only: if_True if_False f1 f2 f3)
  from t have se: "spec_estimate text = max 1 \<lfloor>(of_nat n :: rat) / spec_divisor text\<rfloor>"
    by (simp only: spec_estimate_def n_def if_False)
  have "spec_estimate text =
      max 1 (int (if 7 * n < 10 * c then 5 * n div 6
                  else if 10 * c < n then n div 4 else 2 * n div 5))"
    by (simp only: se fl)
  then show ?thesis
    by (simp only: n_def c_def)
qed

lemma estimate_text_tokens_value:
  assumes h: "length text < 2 ^ 49"
  shows "estimate_text_tokens (Str_Arg text) = spec_estimate text"
proof (cases "text = []")
  case True
  then show ?thesis by (simp add: estimate_text_tokens_def spec_estimate_def)
next
  case False
  then have t: "0 < length text" by simp
  have c: "length (filter is_cjk text) \<le> length text" by simp
  from False have "estimate_text_tokens (Str_Arg text) =
      estimate_counts (length (filter is_cjk text)) (length text)"
    by (simp add: estimate_text_tokens_def estimate_content_def)
  then show ?thesis
    by (simp only: estimate_counts_value [OF t c h] spec_estimate_value [OF False])
qed

text \<open>
  C8. For a text of fewer than 2^49 characters (a Python string that long takes 512 TiB
  at least), the estimator, which computes in doubles, returns what the spec's rule
  gives in exact arithmetic: 0 for the empty text, and otherwise
  max(1, floor(charCount / divisor)) with the divisor 1.2 when the fraction of CJK-range
  characters exceeds 0.7, 4.0 when it is below 0.1, and 2.5 otherwise. So every
  400-character ASCII text gives 100, and every 120-character text of CJK-range
  characters gives 100.
\<close>

theorem estimate_text_tokens_spec:
  "length text < 2 ^ 49 \<Longrightarrow>
   estimate_text_tokens (Str_Arg text) = spec_estimate text
   \<and> estimate_output_tokens text = estimate_text_tokens (Str_Arg text)
   \<and> (length text = 400 \<and> (\<forall>c\<in>set text. c < 128)
        \<longrightarrow> estimate_text_tokens (Str_Arg text) = 100)
   \<and> (length text = 120 \<and> (\<forall>c\<in>set text. is_cjk c)
        \<longrightarrow> estimate_text_tokens (Str_Arg text) = 100)"
proof -
  assume h: "length text < 2 ^ 49"
  note v = estimate_text_tokens_value [OF h]
  have a: "estimate_text_tokens (Str_Arg text) = 100"
    if "length text = 400 \<and> (\<forall>c\<in>set text. c < 128)"
  proof -
    from that have l: "length text = 400" and "\<forall>c\<in>set text. \<not> is_cjk c"
      by (auto simp: is_cjk_def)
    then have f: "filter is_cjk text = []" by (simp add: filter_empty_conv)
    from l have ne: "text \<noteq> []" by auto
    show ?thesis
      unfolding v spec_estimate_value [OF ne] by (simp add: l f)
  qed
  have b: "estimate_text_tokens (Str_Arg text) = 100"
    if "length text = 120 \<and> (\<forall>c\<in>set text. is_cjk c)"
  proof -
    from that have l: "length text = 120" and f: "filter is_cjk text = text"
      by simp_all
    from l have ne: "text \<noteq> []" by auto
    show ?thesis
      unfolding v spec_estimate_value [OF ne] by (simp add: l f)
  qed
  have o: "estimate_output_tokens text = estimate_text_tokens (Str_Arg text)"
    by (simp add: estimate_output_tokens_def)
  from v o a b show ?thesis by blast
qed

theorem estimate_text_tokens_spec_witness:
  "estimate_text_tokens (Str_Arg (replicate 400 97)) = 100
   \<and> estimate_text_tokens (Str_Arg (replicate 120 20013)) = 100
   \<and> estimate_text_tokens (Str_Arg (replicate 7 20013 @ replicate 3 97)) = 4
   \<and> estimate_text_tokens (Str_Arg []) = 0
   \<and> estimate_text_tokens (Str_Arg [97]) = 1"
proof -
  have a: "estimate_text_tokens (Str_Arg (replicate 400 97)) = 100"
    using estimate_text_tokens_spec
      [of "replicate 400 97", THEN conjunct2, THEN conjunct2, THEN conjunct1]
    by simp
  have b: "estimate_text_tokens (Str_Arg (replicate 120 20013)) = 100"
    using estimate_text_tokens_spec
      [of "replicate 120 20013", THEN conjunct2, THEN conjunct2, THEN conjunct2]
    by (simp add: is_cjk_def)
  have c: "estimate_text_tokens (Str_Arg (replicate 7 20013 @ replicate 3 97)) = 4"
    using estimate_text_tokens_spec [of "replicate 7 20013 @ replicate 3 97", THEN conjunct1]
    by (simp add: spec_estimate_def spec_divisor_def cjk_fraction_def is_cjk_def)
  have d: "estimate_text_tokens (Str_Arg []) = 0"
    using estimate_text_tokens_spec [of "[]", THEN conjunct1]
    by (simp add: spec_estimate_def)
  have e: "estimate_text_tokens (Str_Arg [97]) = 1"
    using estimate_text_tokens_spec [of "[97]", THEN conjunct1]
    by (simp add: spec_estimate_def spec_divisor_def cjk_fraction_def is_cjk_def)
  from a b c d e show ?thesis by blast
qed

end
